theory Spec2Isabelle
  imports Main "HOL-Library.Sublist"
begin

text \<open>
  A model of the cadastre download tool \<open>VZD_KK_download.py\<close>: the catalog client
  \<open>get_territory_list\<close>, the sort key \<open>get_sort_key\<close>, the merge
  \<open>merge_shapefiles\<close>, and the extraction loop and the packing of
  \<open>process_territories\<close>. Exceptions are values of sum types, the files and the
  network are arguments, and what a function writes is part of its result.
\<close>

section \<open>Python strings\<close>

text \<open>
  A Python \<open>str\<close> is modelled as a HOL \<open>string\<close> whose characters are the code points
  below 256. Code points above 255 are outside the model. The case mappings are the
  ASCII ones: on the comparisons the program makes (against \<open>SHP\<close>, \<open>ZIP\<close>, \<open>.zip\<close>
  and \<open>.shp\<close>) they agree with Python's on every string of such code points.
\<close>

datatype py_error =
    ConnectionError | HTTPError | JSONDecodeError
  | KeyError | AttributeError | ValueError | IndexError

definition code :: "char \<Rightarrow> nat" where
  "code c = of_char c"

definition lower_char :: "char \<Rightarrow> char" where
  "lower_char c = (if 65 \<le> code c \<and> code c \<le> 90 then char_of (code c + 32) else c)"

definition upper_char :: "char \<Rightarrow> char" where
  "upper_char c = (if 97 \<le> code c \<and> code c \<le> 122 then char_of (code c - 32) else c)"

definition lower :: "string \<Rightarrow> string" where
  "lower s = map lower_char s"

definition upper :: "string \<Rightarrow> string" where
  "upper s = map upper_char s"

definition startswith :: "string \<Rightarrow> string \<Rightarrow> bool" where
  "startswith s p = (take (length p) s = p)"

definition endswith :: "string \<Rightarrow> string \<Rightarrow> bool" where
  "endswith s p = (length p \<le> length s \<and> drop (length s - length p) s = p)"

text \<open>\<open>sub in s\<close>: some suffix of \<open>s\<close> starts with \<open>sub\<close>.\<close>

fun contains :: "string \<Rightarrow> string \<Rightarrow> bool" where
  "contains sub [] = (sub = [])"
| "contains sub (x # xs) = (startswith (x # xs) sub \<or> contains sub xs)"

text \<open>\<open>s.split(c)\<close> for a one-character separator: never the empty list.\<close>

fun split :: "char \<Rightarrow> string \<Rightarrow> string list" where
  "split c [] = [[]]"
| "split c (x # xs) =
     (if x = c then [] # split c xs
      else (case split c xs of p # ps \<Rightarrow> (x # p) # ps | [] \<Rightarrow> [[x]]))"

text \<open>The subscript \<open>[0]\<close> of a list: IndexError when there is no element.\<close>

definition item0 :: "'a list \<Rightarrow> py_error + 'a" where
  "item0 xs = (if xs = [] then Inl IndexError else Inr (hd xs))"

text \<open>
  \<open>s.rsplit(c, 1)[0]\<close>: the text before the last \<open>c\<close>, the whole of \<open>s\<close> when \<open>c\<close>
  does not occur in it.
\<close>

definition rsplit1_head :: "char \<Rightarrow> string \<Rightarrow> string" where
  "rsplit1_head c s =
     (if c \<in> set s then rev (tl (dropWhile (\<lambda>x. x \<noteq> c) (rev s))) else s)"

text \<open>
  \<open>s.replace(old, new)\<close> for a non-empty \<open>old\<close>: every occurrence, left to right,
  without overlap. (The program only calls it with \<open>old = ".shp"\<close>.)
\<close>

function replace :: "string \<Rightarrow> string \<Rightarrow> string \<Rightarrow> string" where
  "replace old new [] = []"
| "replace old new (x # xs) =
     (if old \<noteq> [] \<and> startswith (x # xs) old
      then new @ replace old new (drop (length old) (x # xs))
      else x # replace old new xs)"
  by pat_completeness auto
termination
  by (relation "measure (\<lambda>(old, new, s). length s)") (auto simp: startswith_def)

subsection \<open>\<open>str.isdigit\<close> and \<open>int\<close>\<close>

text \<open>
  Below 256 the characters with \<open>isdigit()\<close> true are the ten decimal digits and the
  superscripts two, three and one (code points 178, 179 and 185). \<open>int\<close> raises
  ValueError on the superscripts. \<open>int\<close> is only reached with a string for which
  \<open>isdigit()\<close> holds, so signs, blanks and underscores do not arise. \<open>int\<close> also
  raises ValueError on a string of more than 4300 digits, leading zeros counted (the
  default of \<open>sys.set_int_max_str_digits\<close>).
\<close>

definition is_decimal :: "char \<Rightarrow> bool" where
  "is_decimal c = (48 \<le> code c \<and> code c \<le> 57)"

definition isdigit_char :: "char \<Rightarrow> bool" where
  "isdigit_char c = (is_decimal c \<or> code c = 178 \<or> code c = 179 \<or> code c = 185)"

definition isdigit :: "string \<Rightarrow> bool" where
  "isdigit s = (s \<noteq> [] \<and> list_all isdigit_char s)"

definition digit_val :: "char \<Rightarrow> int" where
  "digit_val c = int (code c) - 48"

fun int_acc :: "int \<Rightarrow> string \<Rightarrow> py_error + int" where
  "int_acc acc [] = Inr acc"
| "int_acc acc (c # cs) =
     (if is_decimal c then int_acc (10 * acc + digit_val c) cs else Inl ValueError)"

definition max_str_digits :: nat where
  "max_str_digits = 4300"

definition py_int :: "string \<Rightarrow> py_error + int" where
  "py_int s =
     (if s = [] \<or> max_str_digits < length s then Inl ValueError else int_acc 0 s)"

section \<open>The sort key of a label\<close>

text \<open>
  \<open>get_sort_key\<close>: the body of the \<open>try\<close> either returns a key or falls through
  (no digits, or an exception that the bare \<open>except\<close> swallows); falling through
  returns 999999.
\<close>

definition sort_key_try :: "string \<Rightarrow> py_error + int option" where
  "sort_key_try text =
     (case item0 (split (CHR ''.'') text) of
        Inl e \<Rightarrow> Inl e
      | Inr first_part \<Rightarrow>
          if isdigit first_part
          then (case py_int first_part of Inl e \<Rightarrow> Inl e | Inr n \<Rightarrow> Inr (Some n))
          else Inr None)"

definition get_sort_key :: "string \<Rightarrow> int" where
  "get_sort_key text =
     (case sort_key_try text of
        Inr (Some n) \<Rightarrow> n
      | Inr None \<Rightarrow> 999999
      | Inl e \<Rightarrow> 999999)"

text \<open>
  The two notions the description of the sort key uses: the integer a run of decimal
  digits denotes (positional value), and a label that is a non-empty run of decimal
  digits, a period, and anything after it.
\<close>

definition digits_value :: "string \<Rightarrow> int" where
  "digits_value ds = (\<Sum>i<length ds. digit_val (ds ! i) * 10 ^ (length ds - Suc i))"

definition digits_dot_form :: "string \<Rightarrow> bool" where
  "digits_dot_form l =
     (CHR ''.'' \<in> set l \<and> takeWhile (\<lambda>c. c \<noteq> CHR ''.'') l \<noteq> [] \<and>
      list_all is_decimal (takeWhile (\<lambda>c. c \<noteq> CHR ''.'') l))"

section \<open>Shapefiles as the library presents them\<close>

text \<open>
  The program reads and writes shapefiles through the pyshp library (its version 2
  interface: \<open>Writer(target)\<close>, \<open>Reader\<close> as a context manager, \<open>w.shape\<close>,
  \<open>w.close\<close>). What the program relies on:
  \<^item> \<open>Reader(path)\<close> raises, or gives a reader whose \<open>fields\<close> (here
    \<open>sf_fields\<close>) is the list of field descriptors, the deletion-marker pseudo-field
    \<open>DeletionFlag\<close> first;
  \<^item> \<open>iterShapeRecords()\<close> yields the shape and record pairs of the file in order, and
    may raise before a pair (a damaged or truncated file);
  \<^item> a reader has \<open>__len__\<close> (the number of records the file declares) and no
    \<open>__bool__\<close>, so that \<open>not sf\<close> holds of a reader of a file without records;
  \<^item> \<open>Writer(target)\<close> opens the geometry, index and attribute files of the target
    for writing at once; \<open>field\<close> appends a field descriptor and \<open>close\<close> completes
    the three files;
  \<^item> \<open>w.record\<close> appends a record, or raises when a value does not fit the field it is
    written to, and leaves the records as they are; \<open>w.shape\<close> appends a shape, or
    raises when the shape does not fit what the writer holds (a shape of another type
    than the first). Whether they raise is decided by the library from the state of
    the writer and the value: the two tests are arguments of the model.
  A field descriptor is (name, type, length, decimal precision). The types of the
  attribute records and of the shapes are left open.
\<close>

type_synonym field = "string \<times> string \<times> nat \<times> nat"

record ('a, 's) reader =
  sf_fields :: "field list"
  shapeRecords :: "('s \<times> 'a) list"
  fail_at :: "nat option"

text \<open>
  \<open>fail_at = Some k\<close>: the iteration raises instead of yielding the pair of index \<open>k\<close>.
  \<open>iterShapeRecords\<close> gives the pairs yielded and whether the iteration raised.
\<close>

definition iterShapeRecords :: "('a, 's) reader \<Rightarrow> ('s \<times> 'a) list \<times> bool" where
  "iterShapeRecords sf =
     (case fail_at sf of
        None \<Rightarrow> (shapeRecords sf, False)
      | Some k \<Rightarrow> (take k (shapeRecords sf), True))"

definition reader_len :: "('a, 's) reader \<Rightarrow> nat" where
  "reader_len sf = length (shapeRecords sf)"

definition truthy :: "('a, 's) reader \<Rightarrow> bool" where
  "truthy sf = (reader_len sf \<noteq> 0)"

record ('a, 's) writer =
  target :: string
  w_fields :: "field list"
  w_records :: "'a list"
  w_shapes :: "'s list"
  closed :: bool

text \<open>The two tests of the library: does \<open>w.record\<close>, does \<open>w.shape\<close> take the value.\<close>

record ('a, 's) checks =
  record_ok :: "('a, 's) writer \<Rightarrow> 'a \<Rightarrow> bool"
  shape_ok :: "('a, 's) writer \<Rightarrow> 's \<Rightarrow> bool"

definition Writer :: "string \<Rightarrow> ('a, 's) writer" where
  "Writer output_path =
     \<lparr>target = output_path, w_fields = [], w_records = [], w_shapes = [], closed = False\<rparr>"

definition w_field :: "('a, 's) writer \<Rightarrow> field \<Rightarrow> ('a, 's) writer" where
  "w_field w f = w\<lparr>w_fields := w_fields w @ [f]\<rparr>"

definition w_record :: "('a, 's) writer \<Rightarrow> 'a \<Rightarrow> ('a, 's) writer" where
  "w_record w r = w\<lparr>w_records := w_records w @ [r]\<rparr>"

definition w_shape :: "('a, 's) writer \<Rightarrow> 's \<Rightarrow> ('a, 's) writer" where
  "w_shape w s = w\<lparr>w_shapes := w_shapes w @ [s]\<rparr>"

definition w_close :: "('a, 's) writer \<Rightarrow> ('a, 's) writer" where
  "w_close w = w\<lparr>closed := True\<rparr>"

text \<open>
  The environment of a merge: what \<open>Reader(path)\<close> gives for each path (\<open>None\<close>: it
  raises) and which paths \<open>os.path.exists\<close> finds.
\<close>

type_synonym ('a, 's) disk = "string \<Rightarrow> ('a, 's) reader option"

section \<open>Merging shapefiles\<close>

text \<open>Lines 65 to 73: the first path that opens with more than one field descriptor.\<close>

fun find_first :: "('a, 's) disk \<Rightarrow> string list \<Rightarrow> ('a, 's) reader option" where
  "find_first d [] = None"
| "find_first d (path # paths) =
     (case d path of
        None \<Rightarrow> find_first d paths
      | Some temp_sf \<Rightarrow>
          if length (sf_fields temp_sf) > 1 then Some temp_sf else find_first d paths)"

text \<open>Lines 80 to 83.\<close>

fun copy_fields :: "field list \<Rightarrow> ('a, 's) writer \<Rightarrow> ('a, 's) writer" where
  "copy_fields [] w = w"
| "copy_fields (f # fs) w =
     (if fst f = ''DeletionFlag'' then copy_fields fs w else copy_fields fs (w_field w f))"

text \<open>
  Lines 91 to 93, over the pairs the iteration yields: for each pair the record is
  written, then the shape. The first call that raises ends the loop, with what was
  written before it left in the writer: the result is the writer and whether a call
  raised.
\<close>

fun append_pairs ::
  "('a, 's) checks \<Rightarrow> ('s \<times> 'a) list \<Rightarrow> ('a, 's) writer \<Rightarrow> ('a, 's) writer \<times> bool"
where
  "append_pairs lib [] w = (w, False)"
| "append_pairs lib (shape_rec # rest) w =
     (if \<not> record_ok lib w (snd shape_rec) then (w, True)
      else if \<not> shape_ok lib (w_record w (snd shape_rec)) (fst shape_rec)
      then (w_record w (snd shape_rec), True)
      else append_pairs lib rest
             (w_shape (w_record w (snd shape_rec)) (fst shape_rec)))"

text \<open>
  Lines 87 to 95, for one path: the writer afterwards and the error that line 95
  reports, if any. The iteration is lazy, so a writer call that raises on a pair comes
  before a read error behind that pair.
\<close>

datatype file_error = OpenFailed | ReadFailed | WriteFailed

definition merge_file ::
  "('a, 's) checks \<Rightarrow> ('a, 's) disk \<Rightarrow> ('a, 's) reader \<Rightarrow> string \<Rightarrow> ('a, 's) writer \<Rightarrow>
   ('a, 's) writer \<times> file_error option"
where
  "merge_file lib d first_sf path w =
     (case d path of
        None \<Rightarrow> (w, Some OpenFailed)
      | Some sf \<Rightarrow>
          if length (sf_fields sf) \<noteq> length (sf_fields first_sf) then (w, None)
          else
            (case append_pairs lib (fst (iterShapeRecords sf)) w of
               (w', True) \<Rightarrow> (w', Some WriteFailed)
             | (w', False) \<Rightarrow>
                 (w', if snd (iterShapeRecords sf) then Some ReadFailed else None)))"

text \<open>Line 86: the loop over the paths, with the errors reported on the way.\<close>

fun merge_loop ::
  "('a, 's) checks \<Rightarrow> ('a, 's) disk \<Rightarrow> ('a, 's) reader \<Rightarrow> string list \<Rightarrow> ('a, 's) writer \<Rightarrow>
   ('a, 's) writer \<times> (string \<times> file_error) list"
where
  "merge_loop lib d first_sf [] w = (w, [])"
| "merge_loop lib d first_sf (path # paths) w =
     (case merge_file lib d first_sf path w of
        (w', e) \<Rightarrow>
          (case merge_loop lib d first_sf paths w' of
             (w'', es) \<Rightarrow>
               (w'', (case e of None \<Rightarrow> es | Some err \<Rightarrow> (path, err) # es))))"

text \<open>
  What a call of \<open>merge_shapefiles\<close> leaves behind: the value returned, the writer (if
  one was created), the errors reported for single files, and the copy of a projection
  file (source, destination) if one was made.
\<close>

record ('a, 's) outcome =
  returned :: bool
  writer_state :: "('a, 's) writer option"
  reported :: "(string \<times> file_error) list"
  prj_copied :: "(string \<times> string) option"

definition merge_shapefiles ::
  "(string \<Rightarrow> bool) \<Rightarrow> ('a, 's) checks \<Rightarrow> ('a, 's) disk \<Rightarrow> string list \<Rightarrow> string \<Rightarrow>
   ('a, 's) outcome"
where
  "merge_shapefiles path_exists lib d file_paths output_path =
     (case file_paths of
        [] \<Rightarrow> \<lparr>returned = False, writer_state = None, reported = [], prj_copied = None\<rparr>
      | path0 # _ \<Rightarrow>
          (let w = Writer output_path in
           case find_first d file_paths of
             None \<Rightarrow>
               \<lparr>returned = False, writer_state = Some w, reported = [], prj_copied = None\<rparr>
           | Some first_sf \<Rightarrow>
               if \<not> truthy first_sf
               then \<lparr>returned = False, writer_state = Some w, reported = [],
                     prj_copied = None\<rparr>
               else
                 (let w = copy_fields (sf_fields first_sf) w;
                      (w, errors) = merge_loop lib d first_sf file_paths w;
                      w = w_close w;
                      first_prj = replace ''.shp'' ''.prj'' path0;
                      output_prj = replace ''.shp'' ''.prj'' output_path
                  in \<lparr>returned = True, writer_state = Some w, reported = errors,
                      prj_copied =
                        (if path_exists first_prj then Some (first_prj, output_prj)
                         else None)\<rparr>)))"

text \<open>
  Derived notions for stating properties of a merge: a path that opens with more than
  one field descriptor, the pairs read from a path that has the canonical
  field-descriptor count \<open>n\<close> and their number, the writer when the paths \<open>ps\<close> have
  been gone through, the number of records in the output, and the projection sidecar of
  a path (the path with its extension replaced).
\<close>

definition valid_input :: "('a, 's) disk \<Rightarrow> string \<Rightarrow> bool" where
  "valid_input d path =
     (case d path of None \<Rightarrow> False | Some sf \<Rightarrow> 1 < length (sf_fields sf))"

definition appended :: "('a, 's) disk \<Rightarrow> nat \<Rightarrow> string \<Rightarrow> ('s \<times> 'a) list" where
  "appended d n path =
     (case d path of
        None \<Rightarrow> []
      | Some sf \<Rightarrow> if length (sf_fields sf) = n then fst (iterShapeRecords sf) else [])"

definition contribution :: "('a, 's) disk \<Rightarrow> nat \<Rightarrow> string \<Rightarrow> nat" where
  "contribution d n path =
     (case d path of
        None \<Rightarrow> 0
      | Some sf \<Rightarrow>
          if length (sf_fields sf) = n
          then (case fail_at sf of
                  None \<Rightarrow> length (shapeRecords sf)
                | Some k \<Rightarrow> min k (length (shapeRecords sf)))
          else 0)"

definition writer_after ::
  "('a, 's) checks \<Rightarrow> ('a, 's) disk \<Rightarrow> ('a, 's) reader \<Rightarrow> string list \<Rightarrow> string \<Rightarrow>
   ('a, 's) writer"
where
  "writer_after lib d first_sf ps output_path =
     fst (merge_loop lib d first_sf ps (copy_fields (sf_fields first_sf) (Writer output_path)))"

definition record_count :: "('a, 's) outcome \<Rightarrow> nat" where
  "record_count out = (case writer_state out of None \<Rightarrow> 0 | Some w \<Rightarrow> length (w_records w))"

definition no_write_error :: "('a, 's) outcome \<Rightarrow> bool" where
  "no_write_error out = (WriteFailed \<notin> snd ` set (reported out))"

definition prj_sidecar :: "string \<Rightarrow> string" where
  "prj_sidecar path = rsplit1_head (CHR ''.'') path @ ''.prj''"

subsection \<open>A directory of example files\<close>

text \<open>
  Attribute records are lists of strings; a shape is its type and a number. The
  example writer takes a record when every value written to a numeric field (type
  \<open>N\<close>) is a decimal number, and a shape when it has the type of the shapes written
  before it.

  \<open>riga\<close> and \<open>jelgava\<close> are sound parcel files of the same schema; \<open>torn\<close> has that
  schema and cannot be read past its first record; \<open>other\<close> has one attribute less;
  \<open>names\<close> has as many fields as the parcel files, with text where they have the
  area; \<open>points\<close> has the parcel schema and point shapes; \<open>empty\<close> has the schema and
  no record; \<open>flag_only\<close> has the deletion marker as its only field descriptor;
  \<open>KKParcel.SHP\<close> is a sound file with an upper-case extension. Nothing else opens.
\<close>

definition is_number :: "string \<Rightarrow> bool" where
  "is_number v = (v \<noteq> [] \<and> list_all (\<lambda>c. is_decimal c \<or> c = CHR ''.'') v)"

definition value_fits :: "field \<times> string \<Rightarrow> bool" where
  "value_fits fv = (if fst (snd (fst fv)) = ''N'' then is_number (snd fv) else True)"

definition example_checks :: "(string list, nat \<times> nat) checks" where
  "example_checks =
     \<lparr>record_ok = (\<lambda>w r. list_all value_fits (zip (w_fields w) r)),
      shape_ok = (\<lambda>w s. list_all (\<lambda>s'. fst s' = fst s) (w_shapes w))\<rparr>"

definition parcel_fields :: "field list" where
  "parcel_fields =
     [(''DeletionFlag'', ''C'', 1, 0), (''CODE'', ''C'', 14, 0), (''AREA'', ''N'', 12, 2)]"

definition riga_sf :: "(string list, nat \<times> nat) reader" where
  "riga_sf =
     \<lparr>sf_fields = parcel_fields,
      shapeRecords = [((5, 1), [''0100'', ''10.5'']), ((5, 2), [''0101'', ''7''])],
      fail_at = None\<rparr>"

definition jelgava_sf :: "(string list, nat \<times> nat) reader" where
  "jelgava_sf =
     \<lparr>sf_fields = parcel_fields,
      shapeRecords =
        [((5, 3), [''0900'', ''1'']), ((5, 4), [''0901'', ''2'']), ((5, 5), [''0902'', ''3''])],
      fail_at = None\<rparr>"

definition torn_sf :: "(string list, nat \<times> nat) reader" where
  "torn_sf =
     \<lparr>sf_fields = parcel_fields,
      shapeRecords =
        [((5, 6), [''0500'', ''4'']), ((5, 7), [''0501'', ''5'']), ((5, 8), [''0502'', ''6''])],
      fail_at = Some 1\<rparr>"

definition other_sf :: "(string list, nat \<times> nat) reader" where
  "other_sf =
     \<lparr>sf_fields = [(''DeletionFlag'', ''C'', 1, 0), (''NAME'', ''C'', 40, 0)],
      shapeRecords = [((5, 9), [''x''])],
      fail_at = None\<rparr>"

definition names_sf :: "(string list, nat \<times> nat) reader" where
  "names_sf =
     \<lparr>sf_fields =
        [(''DeletionFlag'', ''C'', 1, 0), (''NAME'', ''C'', 40, 0), (''OWNER'', ''C'', 40, 0)],
      shapeRecords = [((5, 11), [''a'', ''Janis'']), ((5, 12), [''b'', ''Anna''])],
      fail_at = None\<rparr>"

definition points_sf :: "(string list, nat \<times> nat) reader" where
  "points_sf =
     \<lparr>sf_fields = parcel_fields, shapeRecords = [((1, 13), [''0700'', ''9''])],
      fail_at = None\<rparr>"

definition empty_sf :: "(string list, nat \<times> nat) reader" where
  "empty_sf = \<lparr>sf_fields = parcel_fields, shapeRecords = [], fail_at = None\<rparr>"

definition flag_only_sf :: "(string list, nat \<times> nat) reader" where
  "flag_only_sf =
     \<lparr>sf_fields = [(''DeletionFlag'', ''C'', 1, 0)], shapeRecords = [], fail_at = None\<rparr>"

definition upper_sf :: "(string list, nat \<times> nat) reader" where
  "upper_sf =
     \<lparr>sf_fields = parcel_fields, shapeRecords = [((5, 10), [''0300'', ''8''])],
      fail_at = None\<rparr>"

definition example_disk :: "(string list, nat \<times> nat) disk" where
  "example_disk path =
     (if path = ''/tmp/w/riga.shp'' then Some riga_sf
      else if path = ''/tmp/w/jelgava.shp'' then Some jelgava_sf
      else if path = ''/tmp/w/torn.shp'' then Some torn_sf
      else if path = ''/tmp/w/other.shp'' then Some other_sf
      else if path = ''/tmp/w/names.shp'' then Some names_sf
      else if path = ''/tmp/w/points.shp'' then Some points_sf
      else if path = ''/tmp/w/empty.shp'' then Some empty_sf
      else if path = ''/tmp/w/flag_only.shp'' then Some flag_only_sf
      else if path = ''/tmp/w/KKParcel.SHP'' then Some upper_sf
      else None)"

text \<open>The files of the working directory that exist: the geometry files, no sidecar.\<close>

definition example_exists :: "string \<Rightarrow> bool" where
  "example_exists path = (example_disk path \<noteq> None)"

section \<open>The catalog of territories\<close>

text \<open>
  The catalog request ends in one of four ways: \<open>requests.get\<close> raises, the status
  check raises, the body is not JSON, or the body is a JSON object. Of the object the
  program reads the truth value of \<open>success\<close> and, when that holds, the list
  \<open>result.resources\<close> (\<open>None\<close> when the subscripts raise). In a resource entry each
  of the keys \<open>name\<close>, \<open>format\<close> and \<open>url\<close> is absent, null or a string; values of
  other JSON types are outside the model.
\<close>

datatype jval = JNull | JStr string

record resource =
  res_name :: "jval option"
  res_format :: "jval option"
  res_url :: "jval option"

record catalog_body =
  success :: bool
  result_resources :: "resource list option"

datatype response = RequestFailed | BadStatus | BadJson | Json catalog_body

text \<open>\<open>res.get(key, default)\<close> on the value found under the key.\<close>

definition get_default :: "jval option \<Rightarrow> jval \<Rightarrow> jval" where
  "get_default v dflt = (case v of None \<Rightarrow> dflt | Some x \<Rightarrow> x)"

definition val_upper :: "jval \<Rightarrow> py_error + string" where
  "val_upper v = (case v of JNull \<Rightarrow> Inl AttributeError | JStr s \<Rightarrow> Inr (upper s))"

definition val_lower :: "jval \<Rightarrow> py_error + string" where
  "val_lower v = (case v of JNull \<Rightarrow> Inl AttributeError | JStr s \<Rightarrow> Inr (lower s))"

definition val_truthy :: "jval \<Rightarrow> bool" where
  "val_truthy v = (case v of JNull \<Rightarrow> False | JStr s \<Rightarrow> s \<noteq> [])"

text \<open>Lines 35 to 41, for one resource entry. \<open>or\<close> evaluates its right side only
  when the left side is false.\<close>

definition add_resource ::
  "resource \<Rightarrow> (string \<rightharpoonup> string) \<Rightarrow> py_error + (string \<rightharpoonup> string)"
where
  "add_resource res resources =
     (case val_upper (get_default (res_format res) (JStr [])) of
        Inl e \<Rightarrow> Inl e
      | Inr fmt \<Rightarrow>
          (let url = get_default (res_url res) (JStr []) in
           case (if fmt \<in> set [''SHP'', ''ZIP''] then Inr True
                 else (case val_lower url of
                         Inl e \<Rightarrow> Inl e
                       | Inr u \<Rightarrow> Inr (endswith u ''.zip''))) of
             Inl e \<Rightarrow> Inl e
           | Inr wanted \<Rightarrow>
               if wanted then
                 (let name = get_default (res_name res) JNull in
                  if val_truthy name \<and> val_truthy url
                  then (case (name, url) of
                          (JStr n, JStr u) \<Rightarrow> Inr (resources(n \<mapsto> u))
                        | _ \<Rightarrow> Inr resources)
                  else Inr resources)
               else Inr resources))"

fun add_resources ::
  "resource list \<Rightarrow> (string \<rightharpoonup> string) \<Rightarrow> py_error + (string \<rightharpoonup> string)"
where
  "add_resources [] resources = Inr resources"
| "add_resources (res # rest) resources =
     (case add_resource res resources of
        Inl e \<Rightarrow> Inl e
      | Inr resources' \<Rightarrow> add_resources rest resources')"

text \<open>Lines 28 to 42: the body of the \<open>try\<close>.\<close>

definition try_block :: "response \<Rightarrow> py_error + (string \<rightharpoonup> string)" where
  "try_block r =
     (case r of
        RequestFailed \<Rightarrow> Inl ConnectionError
      | BadStatus \<Rightarrow> Inl HTTPError
      | BadJson \<Rightarrow> Inl JSONDecodeError
      | Json data \<Rightarrow>
          if success data
          then (case result_resources data of
                  None \<Rightarrow> Inl KeyError
                | Some rs \<Rightarrow> add_resources rs Map.empty)
          else Inr Map.empty)"

text \<open>
  \<open>get_territory_list\<close> gives the error it reported with \<open>st.error\<close>, if any, and
  the mapping it returns.
\<close>

definition get_territory_list :: "response \<Rightarrow> py_error option \<times> (string \<rightharpoonup> string)" where
  "get_territory_list r =
     (case try_block r of
        Inl e \<Rightarrow> (Some e, Map.empty)
      | Inr resources \<Rightarrow> (None, resources))"

text \<open>
  The filtering rule as the description of the catalog states it: a non-empty name, a
  non-empty URL, and a format that is SHP or ZIP in any case or a URL that ends in
  \<open>.zip\<close> in any case.
\<close>

definition ci_equal :: "string \<Rightarrow> string \<Rightarrow> bool" where
  "ci_equal a b = (lower a = lower b)"

definition listed :: "resource \<Rightarrow> bool" where
  "listed res =
     (case (res_name res, res_url res) of
        (Some (JStr n), Some (JStr u)) \<Rightarrow>
          n \<noteq> [] \<and> u \<noteq> [] \<and>
          ((case res_format res of
              Some (JStr f) \<Rightarrow> ci_equal f ''SHP'' \<or> ci_equal f ''ZIP''
            | _ \<Rightarrow> False) \<or>
           endswith (lower u) ''.zip'')
      | _ \<Rightarrow> False)"

definition riga_old :: resource where
  "riga_old = \<lparr>res_name = Some (JStr ''1. Riga''), res_format = Some (JStr ''ZIP''),
               res_url = Some (JStr ''https://x/riga_old.zip'')\<rparr>"

definition riga_new :: resource where
  "riga_new = \<lparr>res_name = Some (JStr ''1. Riga''), res_format = Some (JStr ''zip''),
               res_url = Some (JStr ''https://x/riga.zip'')\<rparr>"

definition riga_pdf :: resource where
  "riga_pdf = \<lparr>res_name = Some (JStr ''1. Riga''), res_format = Some (JStr ''PDF''),
               res_url = Some (JStr ''https://x/riga.pdf'')\<rparr>"

definition jelgava_res :: resource where
  "jelgava_res = \<lparr>res_name = Some (JStr ''10. Jelgava''), res_format = None,
                  res_url = Some (JStr ''https://x/jelgava.ZIP'')\<rparr>"

definition readme_res :: resource where
  "readme_res = \<lparr>res_name = Some (JStr ''Readme''), res_format = Some (JStr ''PDF''),
                 res_url = Some (JStr ''https://x/readme.pdf'')\<rparr>"

definition null_format_res :: resource where
  "null_format_res = \<lparr>res_name = Some (JStr ''2. Liepaja''), res_format = Some JNull,
                      res_url = Some (JStr ''https://x/liepaja.zip'')\<rparr>"

section \<open>Extracting the shapefiles of an archive\<close>

text \<open>\<open>os.path.join\<close> of two components, on a POSIX system.\<close>

definition path_join :: "string \<Rightarrow> string \<Rightarrow> string" where
  "path_join a b =
     (if startswith b ''/'' then b
      else if a = [] \<or> endswith a ''/'' then a @ b
      else a @ ''/'' @ b)"

text \<open>The tests of lines 136 and 143 on an entry name, without the category switch.\<close>

definition is_parcel :: "string \<Rightarrow> bool" where
  "is_parcel filename =
     (contains ''KKParcel'' filename \<and> \<not> contains ''KKParcelPart'' filename \<and>
      endswith (lower filename) ''.shp'')"

definition is_building :: "string \<Rightarrow> bool" where
  "is_building filename =
     (contains ''KKBuilding'' filename \<and> \<not> contains ''KKBuildingPart'' filename \<and>
      endswith (lower filename) ''.shp'')"

text \<open>Lines 137 and 138: the entries that start with the name up to its last period.\<close>

definition group_of :: "string list \<Rightarrow> string \<Rightarrow> string list" where
  "group_of namelist filename =
     (let base = rsplit1_head (CHR ''.'') filename
      in filter (\<lambda>f. startswith f base) namelist)"

text \<open>
  Where \<open>z.extract(member, temp_dir)\<close> writes the member: the library drops the empty,
  \<open>.\<close> and \<open>..\<close> components of the member name, joins the others with \<open>/\<close> and
  joins the result to the directory. (The working directory is a normalised path, as
  \<open>tempfile\<close> makes it.) \<open>z.extract\<close> raises on a member it cannot read; which members
  those are is an argument of the model.
\<close>

fun join :: "char \<Rightarrow> string list \<Rightarrow> string" where
  "join c [] = []"
| "join c [x] = x"
| "join c (x # y # ys) = x @ c # join c (y # ys)"

definition arcname :: "string \<Rightarrow> string" where
  "arcname member =
     join (CHR ''/'')
       (filter (\<lambda>x. x \<notin> set [[], ''.'', ''..'']) (split (CHR ''/'') member))"

definition extract_target :: "string \<Rightarrow> string \<Rightarrow> string" where
  "extract_target temp_dir member =
     (if arcname member = [] then temp_dir else path_join temp_dir (arcname member))"

text \<open>
  The state of the loop over the territories: the members extracted, each with the path
  it was written to, in order, and the two lists of paths to merge. An archive is the
  list of its entry names.
\<close>

record extraction =
  extracted :: "(string \<times> string) list"
  parcels_to_merge :: "string list"
  buildings_to_merge :: "string list"

text \<open>
  Lines 138 and 139 (145 and 146): the members of the group, one after the other. The
  result is the state and whether an extraction raised.
\<close>

fun extract_all ::
  "(string \<Rightarrow> bool) \<Rightarrow> string \<Rightarrow> string list \<Rightarrow> extraction \<Rightarrow> extraction \<times> bool"
where
  "extract_all extract_ok temp_dir [] st = (st, False)"
| "extract_all extract_ok temp_dir (rf # rest) st =
     (if \<not> extract_ok rf then (st, True)
      else extract_all extract_ok temp_dir rest
             (st\<lparr>extracted := extracted st @ [(rf, extract_target temp_dir rf)]\<rparr>))"

text \<open>Lines 136 to 147 for one entry name: the state and whether an exception left the
  loop over the names.\<close>

definition visit_name ::
  "bool \<Rightarrow> bool \<Rightarrow> (string \<Rightarrow> bool) \<Rightarrow> string \<Rightarrow> string list \<Rightarrow> string \<Rightarrow> extraction \<Rightarrow>
   extraction \<times> bool"
where
  "visit_name do_parcels do_buildings extract_ok temp_dir namelist filename st =
     (case (if do_parcels \<and> is_parcel filename
            then (case extract_all extract_ok temp_dir (group_of namelist filename) st of
                    (st', True) \<Rightarrow> (st', True)
                  | (st', False) \<Rightarrow>
                      (st'\<lparr>parcels_to_merge :=
                             parcels_to_merge st' @ [path_join temp_dir filename]\<rparr>, False))
            else (st, False)) of
        (st1, True) \<Rightarrow> (st1, True)
      | (st1, False) \<Rightarrow>
          if do_buildings \<and> is_building filename
          then (case extract_all extract_ok temp_dir (group_of namelist filename) st1 of
                  (st', True) \<Rightarrow> (st', True)
                | (st', False) \<Rightarrow>
                    (st'\<lparr>buildings_to_merge :=
                           buildings_to_merge st' @ [path_join temp_dir filename]\<rparr>, False))
          else (st1, False))"

text \<open>Line 134: the loop over the names of one archive, left by the first exception.\<close>

fun visit_names ::
  "bool \<Rightarrow> bool \<Rightarrow> (string \<Rightarrow> bool) \<Rightarrow> string \<Rightarrow> string list \<Rightarrow> string list \<Rightarrow> extraction \<Rightarrow>
   extraction \<times> bool"
where
  "visit_names do_parcels do_buildings extract_ok temp_dir namelist [] st = (st, False)"
| "visit_names do_parcels do_buildings extract_ok temp_dir namelist (filename # rest) st =
     (case visit_name do_parcels do_buildings extract_ok temp_dir namelist filename st of
        (st', True) \<Rightarrow> (st', True)
      | (st', False) \<Rightarrow>
          visit_names do_parcels do_buildings extract_ok temp_dir namelist rest st')"

text \<open>
  Lines 125 to 152: one territory after the other. \<open>None\<close> is a territory whose
  download or archive raises. An exception in the \<open>try\<close> is reported and the loop goes
  on to the next territory with the state as the exception left it.
\<close>

fun download_loop ::
  "bool \<Rightarrow> bool \<Rightarrow> (string \<Rightarrow> bool) \<Rightarrow> string \<Rightarrow> string list option list \<Rightarrow> extraction \<Rightarrow>
   extraction"
where
  "download_loop do_parcels do_buildings extract_ok temp_dir [] st = st"
| "download_loop do_parcels do_buildings extract_ok temp_dir (archive # rest) st =
     download_loop do_parcels do_buildings extract_ok temp_dir rest
       (case archive of
          None \<Rightarrow> st
        | Some namelist \<Rightarrow>
            fst (visit_names do_parcels do_buildings extract_ok temp_dir namelist namelist st))"

definition no_extraction :: extraction where
  "no_extraction = \<lparr>extracted = [], parcels_to_merge = [], buildings_to_merge = []\<rparr>"

text \<open>
  An entry the requested categories select; an entry name that is a relative path
  without empty, \<open>.\<close> or \<open>..\<close> components; the archive of one territory, and the same
  archive with a member that cannot be read.
\<close>

definition selected :: "bool \<Rightarrow> bool \<Rightarrow> string \<Rightarrow> bool" where
  "selected do_parcels do_buildings filename =
     (do_parcels \<and> is_parcel filename \<or> do_buildings \<and> is_building filename)"

definition plain :: "string \<Rightarrow> bool" where
  "plain member =
     list_all (\<lambda>x. x \<notin> set [[], ''.'', ''..'']) (split (CHR ''/'') member)"

definition example_archive :: "string list" where
  "example_archive =
     [''KKParcel.shp'', ''KKParcel.shx'', ''KKParcel.dbf'', ''KKParcel.prj'',
      ''KKParcelPart.shp'', ''KKParcelPart.shx'', ''KKParcelPart.dbf'',
      ''KKBuilding.shp'', ''KKBuilding.dbf'']"

definition all_readable :: "string \<Rightarrow> bool" where
  "all_readable member = True"

definition shx_unreadable :: "string \<Rightarrow> bool" where
  "shx_unreadable member = (member \<noteq> ''KKParcel.shx'')"

section \<open>Merging the categories and packing the result\<close>

text \<open>Lines 155 to 169: the base names of the merges that returned success.\<close>

definition files_created ::
  "(string \<Rightarrow> bool) \<Rightarrow> ('a, 's) checks \<Rightarrow> ('a, 's) disk \<Rightarrow> string \<Rightarrow> string list \<Rightarrow>
   string list \<Rightarrow> string list"
where
  "files_created path_exists lib d temp_dir parcels buildings =
     (if parcels \<noteq> [] \<and>
         returned (merge_shapefiles path_exists lib d parcels
                     (path_join temp_dir ''Parcels_merged.shp''))
      then [''Parcels_merged''] else []) @
     (if buildings \<noteq> [] \<and>
         returned (merge_shapefiles path_exists lib d buildings
                     (path_join temp_dir ''Buildings_merged.shp''))
      then [''Buildings_merged''] else [])"

text \<open>
  Lines 172 to 184. The archive written is the list of its members, each the path of
  the file stored and the name it is stored under.
\<close>

definition package_exts :: "string list" where
  "package_exts = [''.shp'', ''.shx'', ''.dbf'', ''.prj'', ''.cpg'']"

fun write_exts ::
  "(string \<Rightarrow> bool) \<Rightarrow> string \<Rightarrow> string \<Rightarrow> string list \<Rightarrow> (string \<times> string) list \<Rightarrow>
   (string \<times> string) list"
where
  "write_exts path_exists base_path base_name [] zip_file = zip_file"
| "write_exts path_exists base_path base_name (ext # exts) zip_file =
     write_exts path_exists base_path base_name exts
       (if path_exists (base_path @ ext)
        then zip_file @ [(base_path @ ext, base_name @ ext)]
        else zip_file)"

fun write_bases ::
  "(string \<Rightarrow> bool) \<Rightarrow> string \<Rightarrow> string list \<Rightarrow> (string \<times> string) list \<Rightarrow>
   (string \<times> string) list"
where
  "write_bases path_exists temp_dir [] zip_file = zip_file"
| "write_bases path_exists temp_dir (base_name # rest) zip_file =
     write_bases path_exists temp_dir rest
       (write_exts path_exists (path_join temp_dir base_name) base_name package_exts
          zip_file)"

definition zip_result ::
  "(string \<Rightarrow> bool) \<Rightarrow> string \<Rightarrow> string list \<Rightarrow> (string \<times> string) list option"
where
  "zip_result path_exists temp_dir created =
     (if created \<noteq> [] then Some (write_bases path_exists temp_dir created [])
      else None)"

definition merged_exists :: "string \<Rightarrow> bool" where
  "merged_exists path =
     (path \<in> set [''/tmp/w/Parcels_merged.shp'', ''/tmp/w/Parcels_merged.shx'',
                  ''/tmp/w/Parcels_merged.dbf'', ''/tmp/w/Buildings_merged.prj''])"

section \<open>Properties of the sort key\<close>

lemma item0_split: "item0 (split c s) = Inr (takeWhile (\<lambda>x. x \<noteq> c) s)"
  by (induction s) (auto simp: item0_def split: list.splits if_splits)

lemma digits_value_Cons:
  "digits_value (c # cs) = digit_val c * 10 ^ length cs + digits_value cs"
  by (simp add: digits_value_def sum.lessThan_Suc_shift del: sum.lessThan_Suc)

lemma int_acc_decimal:
  "list_all is_decimal s \<Longrightarrow> int_acc acc s = Inr (acc * 10 ^ length s + digits_value s)"
proof (induction s arbitrary: acc)
  case Nil
  then show ?case by (simp add: digits_value_def)
next
  case (Cons c cs)
  then show ?case by (simp add: digits_value_Cons algebra_simps)
qed

lemma int_acc_not_decimal:
  "\<not> list_all is_decimal s \<Longrightarrow> int_acc acc s = Inl ValueError"
  by (induction s arbitrary: acc) auto

lemma decimal_isdigit: "s \<noteq> [] \<Longrightarrow> list_all is_decimal s \<Longrightarrow> isdigit s"
  by (auto simp: isdigit_def isdigit_char_def list_all_iff)

lemma not_isdigit_not_decimal: "\<not> isdigit s \<Longrightarrow> s \<noteq> [] \<Longrightarrow> \<not> list_all is_decimal s"
  using decimal_isdigit by blast

lemma get_sort_key_eq:
  "get_sort_key l =
     (if takeWhile (\<lambda>c. c \<noteq> CHR ''.'') l \<noteq> [] \<and>
         list_all is_decimal (takeWhile (\<lambda>c. c \<noteq> CHR ''.'') l) \<and>
         length (takeWhile (\<lambda>c. c \<noteq> CHR ''.'') l) \<le> 4300
      then digits_value (takeWhile (\<lambda>c. c \<noteq> CHR ''.'') l) else 999999)"
proof -
  let ?p = "takeWhile (\<lambda>c. c \<noteq> CHR ''.'') l"
  show ?thesis
  proof (cases "?p \<noteq> [] \<and> list_all is_decimal ?p")
    case True
    then show ?thesis
      by (simp add: get_sort_key_def sort_key_try_def item0_split decimal_isdigit
          py_int_def max_str_digits_def int_acc_decimal)
  next
    case False
    then show ?thesis
      by (cases "isdigit ?p")
         (auto simp: get_sort_key_def sort_key_try_def item0_split py_int_def
           int_acc_not_decimal isdigit_def)
  qed
qed

lemma is_decimal_not_dot: "is_decimal c \<Longrightarrow> c \<noteq> CHR ''.''"
  by (auto simp: is_decimal_def code_def)

lemma takeWhile_digits_dot:
  "list_all is_decimal ds \<Longrightarrow> takeWhile (\<lambda>c. c \<noteq> CHR ''.'') (ds @ CHR ''.'' # rest) = ds"
  by (induction ds) (auto simp: is_decimal_not_dot)

lemma takeWhile_digits:
  "list_all is_decimal ds \<Longrightarrow> takeWhile (\<lambda>c. c \<noteq> CHR ''.'') ds = ds"
  by (induction ds) (auto simp: is_decimal_not_dot)

lemma digits_dot_form_iff:
  "digits_dot_form l \<longleftrightarrow>
     (\<exists>ds rest. ds \<noteq> [] \<and> list_all is_decimal ds \<and> l = ds @ CHR ''.'' # rest)"
proof
  assume h: "digits_dot_form l"
  let ?p = "takeWhile (\<lambda>c. c \<noteq> CHR ''.'') l"
  let ?d = "dropWhile (\<lambda>c. c \<noteq> CHR ''.'') l"
  from h have "?d \<noteq> []" by (auto simp: digits_dot_form_def)
  then obtain x xs where d: "?d = x # xs" by (cases ?d) auto
  then have "x = CHR ''.''" using hd_dropWhile[of "\<lambda>c. c \<noteq> CHR ''.''" l] by auto
  with d have "l = ?p @ CHR ''.'' # xs"
    using takeWhile_dropWhile_id[of "\<lambda>c. c \<noteq> CHR ''.''" l] by simp
  with h show "\<exists>ds rest. ds \<noteq> [] \<and> list_all is_decimal ds \<and> l = ds @ CHR ''.'' # rest"
    unfolding digits_dot_form_def by blast
next
  assume "\<exists>ds rest. ds \<noteq> [] \<and> list_all is_decimal ds \<and> l = ds @ CHR ''.'' # rest"
  then obtain ds rest where "ds \<noteq> []" "list_all is_decimal ds" "l = ds @ CHR ''.'' # rest"
    by blast
  then show "digits_dot_form l"
    by (simp add: digits_dot_form_def takeWhile_digits_dot)
qed

lemma zeros_decimal: "list_all is_decimal (replicate n (CHR ''0''))"
  by (induction n) (simp_all add: is_decimal_def code_def)

text \<open>
  C4, as amended. The sort key of a label that is a non-empty run of at most 4300
  decimal digits, a period and anything after it is the integer the digits denote; so
  is the key of a label that consists of at most 4300 decimal digits only, without a
  period. Every other label has the key 999999, and so has a label with more than 4300
  digits before its first period. A label with the key 999999 sorts after the
  digit-prefixed labels whose number is below 999999.
\<close>

theorem get_sort_key_digits_prefix:
  "(ds \<noteq> [] \<and> list_all is_decimal ds \<and> length ds \<le> 4300 \<longrightarrow>
      get_sort_key (ds @ CHR ''.'' # rest) = digits_value ds \<and>
      get_sort_key ds = digits_value ds) \<and>
   (list_all is_decimal ds \<and> 4300 < length ds \<longrightarrow>
      get_sort_key (ds @ CHR ''.'' # rest) = 999999 \<and> get_sort_key ds = 999999) \<and>
   (\<not> digits_dot_form l \<and> \<not> (l \<noteq> [] \<and> list_all is_decimal l) \<longrightarrow>
      get_sort_key l = 999999) \<and>
   (ds \<noteq> [] \<and> list_all is_decimal ds \<and> length ds \<le> 4300 \<and>
    digits_value ds < 999999 \<and> get_sort_key l = 999999 \<longrightarrow>
      get_sort_key (ds @ CHR ''.'' # rest) < get_sort_key l)"
proof -
  have a: "get_sort_key (ds @ CHR ''.'' # rest) = digits_value ds"
    and b: "get_sort_key ds = digits_value ds"
    if "ds \<noteq> []" "list_all is_decimal ds" "length ds \<le> 4300"
    using that by (simp_all add: get_sort_key_eq takeWhile_digits_dot takeWhile_digits)
  have a': "get_sort_key (ds @ CHR ''.'' # rest) = 999999"
    and b': "get_sort_key ds = 999999"
    if "list_all is_decimal ds" "4300 < length ds"
    using that by (simp_all add: get_sort_key_eq takeWhile_digits_dot takeWhile_digits)
  have c: "get_sort_key l = 999999"
    if n: "\<not> digits_dot_form l" "\<not> (l \<noteq> [] \<and> list_all is_decimal l)"
  proof (cases "CHR ''.'' \<in> set l")
    case True
    with n(1) show ?thesis
      by (auto simp: get_sort_key_eq digits_dot_form_def)
  next
    case False
    then have t: "takeWhile (\<lambda>c. c \<noteq> CHR ''.'') l = l"
      by (auto simp: takeWhile_eq_all_conv)
    from n(2) show ?thesis
      unfolding get_sort_key_eq t by auto
  qed
  show ?thesis
  proof (intro conjI impI)
    assume "ds \<noteq> [] \<and> list_all is_decimal ds \<and> length ds \<le> 4300"
    then show "get_sort_key (ds @ CHR ''.'' # rest) = digits_value ds"
      and "get_sort_key ds = digits_value ds"
      using a b by blast+
  next
    assume "list_all is_decimal ds \<and> 4300 < length ds"
    then show "get_sort_key (ds @ CHR ''.'' # rest) = 999999"
      and "get_sort_key ds = 999999"
      using a' b' by blast+
  next
    assume "\<not> digits_dot_form l \<and> \<not> (l \<noteq> [] \<and> list_all is_decimal l)"
    then show "get_sort_key l = 999999" using c by blast
  next
    assume "ds \<noteq> [] \<and> list_all is_decimal ds \<and> length ds \<le> 4300 \<and>
      digits_value ds < 999999 \<and> get_sort_key l = 999999"
    then show "get_sort_key (ds @ CHR ''.'' # rest) < get_sort_key l"
      using a by simp
  qed
qed

lemma ten_decimal: "''10'' \<noteq> [] \<and> list_all is_decimal ''10''"
  by (simp add: is_decimal_def code_def)

lemma ten_value: "digits_value ''10'' = 10"
  by (simp add: digits_value_Cons digit_val_def code_def digits_value_def)

lemma riga_no_digits:
  "\<not> digits_dot_form ''Riga'' \<and> \<not> (''Riga'' \<noteq> [] \<and> list_all is_decimal ''Riga'')"
  by (simp add: digits_dot_form_def is_decimal_def code_def)

theorem get_sort_key_digits_prefix_witness:
  "get_sort_key ''10. Jelgava'' = 10 \<and> get_sort_key ''10'' = 10 \<and>
   get_sort_key ''Riga'' = 999999 \<and> get_sort_key ''10. Jelgava'' < get_sort_key ''Riga'' \<and>
   get_sort_key (replicate 4301 (CHR ''0'') @ CHR ''.'' # '' X'') = 999999"
proof -
  have z: "list_all is_decimal (replicate 4301 (CHR ''0'')) \<and>
           4300 < length (replicate 4301 (CHR ''0''))"
    by (simp add: zeros_decimal)
  have "get_sort_key ''10. Jelgava'' = 10 \<and> get_sort_key ''10'' = 10 \<and>
    get_sort_key ''Riga'' = 999999 \<and> get_sort_key ''10. Jelgava'' < get_sort_key ''Riga''"
    using get_sort_key_digits_prefix [of "''10''" "'' Jelgava''" "''Riga''"]
      ten_decimal ten_value riga_no_digits
    by simp
  moreover have "get_sort_key (replicate 4301 (CHR ''0'') @ CHR ''.'' # '' X'') = 999999"
    using get_sort_key_digits_prefix [of "replicate 4301 (CHR ''0'')" "'' X''" "[]"] z
    by blast
  ultimately show ?thesis by blast
qed

lemma zeros_dot_form: "digits_dot_form (replicate (Suc n) (CHR ''0'') @ CHR ''.'' # rest)"
proof -
  have "takeWhile (\<lambda>c. c \<noteq> CHR ''.'') (replicate (Suc n) (CHR ''0'') @ CHR ''.'' # rest) =
          replicate (Suc n) (CHR ''0'')"
    using zeros_decimal by (rule takeWhile_digits_dot)
  then show ?thesis
    unfolding digits_dot_form_def using zeros_decimal[of "Suc n"] by simp
qed

theorem get_sort_key_sentinel_counterexample:
  "\<not> digits_dot_form ''42'' \<and> get_sort_key ''42'' = 42 \<and>
   digits_dot_form ''1000000. X'' \<and> \<not> digits_dot_form ''X'' \<and>
   get_sort_key ''X'' = 999999 \<and> get_sort_key ''X'' < get_sort_key ''1000000. X'' \<and>
   digits_dot_form (replicate 4301 (CHR ''0'') @ CHR ''.'' # '' X'') \<and>
   get_sort_key (replicate 4301 (CHR ''0'') @ CHR ''.'' # '' X'') = 999999 \<and>
   digits_value (replicate 4301 (CHR ''0'')) = 0"
proof -
  have s: "\<not> digits_dot_form ''42'' \<and> get_sort_key ''42'' = 42 \<and>
   digits_dot_form ''1000000. X'' \<and> \<not> digits_dot_form ''X'' \<and>
   get_sort_key ''X'' = 999999 \<and> get_sort_key ''X'' < get_sort_key ''1000000. X''"
    by (simp add: digits_dot_form_def get_sort_key_eq is_decimal_def code_def digits_value_Cons
        digit_val_def digits_value_def)
  have n: "4301 = Suc 4300" by simp
  have f: "digits_dot_form (replicate 4301 (CHR ''0'') @ CHR ''.'' # '' X'')"
    unfolding n by (rule zeros_dot_form)
  have t: "takeWhile (\<lambda>c. c \<noteq> CHR ''.'') (replicate 4301 (CHR ''0'') @ CHR ''.'' # '' X'') =
             replicate 4301 (CHR ''0'')"
    using zeros_decimal by (rule takeWhile_digits_dot)
  have k: "get_sort_key (replicate 4301 (CHR ''0'') @ CHR ''.'' # '' X'') = 999999"
    unfolding get_sort_key_eq t by simp
  have v: "digits_value (replicate n (CHR ''0'')) = 0" for n
    by (simp add: digits_value_def digit_val_def code_def)
  from s f k v show ?thesis by blast
qed

section \<open>Properties of the merge\<close>

lemma copy_fields_eq:
  "copy_fields fs w = w\<lparr>w_fields := w_fields w @ filter (\<lambda>f. fst f \<noteq> ''DeletionFlag'') fs\<rparr>"
  by (induction fs arbitrary: w) (simp_all add: w_field_def)

lemma append_pairs_fields:
  "w_fields (fst (append_pairs lib ps w)) = w_fields w"
  by (induction ps arbitrary: w) (simp_all add: w_record_def w_shape_def)

lemma append_pairs_all:
  "\<not> snd (append_pairs lib ps w) \<Longrightarrow>
     fst (append_pairs lib ps w) =
       w\<lparr>w_records := w_records w @ map snd ps, w_shapes := w_shapes w @ map fst ps\<rparr>"
  by (induction ps arbitrary: w) (auto simp: w_record_def w_shape_def split: if_splits)

lemma append_pairs_records:
  "\<exists>j\<le>length ps. w_records (fst (append_pairs lib ps w)) = w_records w @ map snd (take j ps)"
proof (induction ps arbitrary: w)
  case Nil
  show ?case by simp
next
  case (Cons sr ps)
  show ?case
  proof (cases "record_ok lib w (snd sr)")
    case False
    then show ?thesis by (intro exI[of _ 0]) simp
  next
    case True
    note rok = this
    show ?thesis
    proof (cases "shape_ok lib (w_record w (snd sr)) (fst sr)")
      case False
      with rok show ?thesis by (intro exI[of _ 1]) (simp add: w_record_def)
    next
      case True
      from Cons.IH[of "w_shape (w_record w (snd sr)) (fst sr)"]
      obtain j where "j \<le> length ps"
        "w_records (fst (append_pairs lib ps (w_shape (w_record w (snd sr)) (fst sr)))) =
           w_records (w_shape (w_record w (snd sr)) (fst sr)) @ map snd (take j ps)"
        by blast
      with rok True show ?thesis
        by (intro exI[of _ "Suc j"]) (simp add: w_record_def w_shape_def)
    qed
  qed
qed

lemma merge_file_fields:
  "w_fields (fst (merge_file lib d c p w)) = w_fields w"
proof -
  have "w_fields (fst (append_pairs lib ps w)) = w_fields w" for ps
    by (rule append_pairs_fields)
  then show ?thesis
    by (auto simp: merge_file_def split: option.splits prod.splits bool.splits)
      (metis fst_conv)+
qed

lemma merge_file_skip:
  "d p = Some sf \<Longrightarrow> length (sf_fields sf) \<noteq> length (sf_fields c) \<Longrightarrow>
     merge_file lib d c p w = (w, None)"
  by (simp add: merge_file_def)

lemma merge_file_records:
  "\<exists>j\<le>contribution d (length (sf_fields c)) p.
     w_records (fst (merge_file lib d c p w)) =
       w_records w @ map snd (take j (appended d (length (sf_fields c)) p))"
proof (cases "d p")
  case None
  then show ?thesis by (intro exI[of _ 0]) (simp add: merge_file_def)
next
  case (Some sf)
  show ?thesis
  proof (cases "length (sf_fields sf) = length (sf_fields c)")
    case False
    with Some show ?thesis by (intro exI[of _ 0]) (simp add: merge_file_def)
  next
    case True
    let ?ps = "fst (iterShapeRecords sf)"
    from append_pairs_records[of ?ps lib w] obtain j where j: "j \<le> length ?ps"
      "w_records (fst (append_pairs lib ?ps w)) = w_records w @ map snd (take j ?ps)"
      by blast
    have a: "appended d (length (sf_fields c)) p = ?ps"
      using Some True by (simp add: appended_def)
    have l: "length ?ps = contribution d (length (sf_fields c)) p"
      using Some True
      by (auto simp: contribution_def iterShapeRecords_def min.commute split: option.splits)
    have "fst (merge_file lib d c p w) = fst (append_pairs lib ?ps w)"
      using Some True by (simp add: merge_file_def split: prod.splits bool.splits)
    with j a l show ?thesis by auto
  qed
qed

lemma merge_file_all:
  assumes "snd (merge_file lib d c p w) \<noteq> Some WriteFailed"
  shows "fst (merge_file lib d c p w) =
           w\<lparr>w_records := w_records w @ map snd (appended d (length (sf_fields c)) p),
             w_shapes := w_shapes w @ map fst (appended d (length (sf_fields c)) p)\<rparr>"
proof (cases "d p")
  case None
  then show ?thesis by (simp add: merge_file_def appended_def)
next
  case (Some sf)
  show ?thesis
  proof (cases "length (sf_fields sf) = length (sf_fields c)")
    case False
    with Some show ?thesis by (simp add: merge_file_def appended_def)
  next
    case True
    let ?ps = "fst (iterShapeRecords sf)"
    have n: "\<not> snd (append_pairs lib ?ps w)"
      using assms Some True by (auto simp: merge_file_def split: prod.splits bool.splits)
    have "fst (merge_file lib d c p w) = fst (append_pairs lib ?ps w)"
      using Some True by (simp add: merge_file_def split: prod.splits bool.splits)
    with append_pairs_all[OF n] Some True show ?thesis by (simp add: appended_def)
  qed
qed

lemma merge_loop_Cons:
  "merge_loop lib d c (p # ps) w =
     (fst (merge_loop lib d c ps (fst (merge_file lib d c p w))),
      (case snd (merge_file lib d c p w) of None \<Rightarrow> [] | Some err \<Rightarrow> [(p, err)]) @
      snd (merge_loop lib d c ps (fst (merge_file lib d c p w))))"
  by (simp split: prod.splits option.splits)

lemma merge_loop_append:
  "merge_loop lib d c (a @ b) w =
     (fst (merge_loop lib d c b (fst (merge_loop lib d c a w))),
      snd (merge_loop lib d c a w) @ snd (merge_loop lib d c b (fst (merge_loop lib d c a w))))"
proof (induction a arbitrary: w)
  case Nil
  show ?case by simp
next
  case (Cons p a)
  show ?case
    unfolding append_Cons merge_loop_Cons Cons.IH by simp
qed

lemma merge_loop_fields:
  "w_fields (fst (merge_loop lib d c ps w)) = w_fields w"
proof (induction ps arbitrary: w)
  case Nil
  show ?case by simp
next
  case (Cons p ps)
  show ?case unfolding merge_loop_Cons by (simp add: Cons.IH merge_file_fields)
qed


lemma merge_loop_count_le:
  "length (w_records (fst (merge_loop lib d c ps w))) \<le>
     length (w_records w) + (\<Sum>p\<leftarrow>ps. contribution d (length (sf_fields c)) p)"
proof (induction ps arbitrary: w)
  case Nil
  show ?case by simp
next
  case (Cons p ps)
  from merge_file_records[of d c p lib w] obtain j
    where j: "j \<le> contribution d (length (sf_fields c)) p"
      "w_records (fst (merge_file lib d c p w)) =
         w_records w @ map snd (take j (appended d (length (sf_fields c)) p))"
    by blast
  then have "length (w_records (fst (merge_file lib d c p w))) \<le>
               length (w_records w) + contribution d (length (sf_fields c)) p"
    by simp
  with Cons.IH[of "fst (merge_file lib d c p w)"] show ?case
    unfolding merge_loop_Cons by simp
qed

lemma merge_loop_all:
  assumes "WriteFailed \<notin> snd ` set (snd (merge_loop lib d c ps w))"
  shows "fst (merge_loop lib d c ps w) =
           w\<lparr>w_records :=
               w_records w @ map snd (concat (map (appended d (length (sf_fields c))) ps)),
             w_shapes :=
               w_shapes w @ map fst (concat (map (appended d (length (sf_fields c))) ps))\<rparr>"
  using assms
proof (induction ps arbitrary: w)
  case Nil
  show ?case by simp
next
  case (Cons p ps)
  from Cons.prems have a: "snd (merge_file lib d c p w) \<noteq> Some WriteFailed"
    and b: "WriteFailed \<notin> snd ` set (snd (merge_loop lib d c ps (fst (merge_file lib d c p w))))"
    unfolding merge_loop_Cons by (auto split: option.splits)
  have "fst (merge_loop lib d c (p # ps) w) =
          fst (merge_loop lib d c ps (fst (merge_file lib d c p w)))"
    unfolding merge_loop_Cons by simp
  also note Cons.IH[OF b]
  finally show ?case
    by (simp add: merge_file_all[OF a])
qed

lemma find_first_None: "find_first d ps = None \<longleftrightarrow> (\<forall>p \<in> set ps. \<not> valid_input d p)"
  by (induction ps) (auto simp: valid_input_def split: option.splits)

lemma find_first_Some:
  "find_first d ps = Some sf \<longleftrightarrow>
     (\<exists>i<length ps. d (ps ! i) = Some sf \<and> 1 < length (sf_fields sf) \<and>
        (\<forall>j<i. \<not> valid_input d (ps ! j)))"
proof (induction ps)
  case Nil
  show ?case by simp
next
  case (Cons p ps)
  show ?case
  proof (cases "\<not> valid_input d p")
    case True
    then have ff: "find_first d (p # ps) = find_first d ps"
      by (auto simp: valid_input_def split: option.splits)
    have "(\<exists>i<length (p # ps). d ((p # ps) ! i) = Some sf \<and> 1 < length (sf_fields sf) \<and>
             (\<forall>j<i. \<not> valid_input d ((p # ps) ! j))) \<longleftrightarrow>
          (\<exists>i<length ps. d (ps ! i) = Some sf \<and> 1 < length (sf_fields sf) \<and>
             (\<forall>j<i. \<not> valid_input d (ps ! j)))" (is "?L \<longleftrightarrow> ?R")
    proof
      assume ?L
      then obtain i where i: "i < length (p # ps)" "d ((p # ps) ! i) = Some sf"
        "1 < length (sf_fields sf)" "\<forall>j<i. \<not> valid_input d ((p # ps) ! j)" by blast
      have "i \<noteq> 0"
      proof
        assume "i = 0"
        with i(2,3) True show False by (simp add: valid_input_def)
      qed
      then obtain k where k: "i = Suc k" by (cases i) auto
      with i have "k < length ps" "d (ps ! k) = Some sf" by auto
      moreover from i(4) k have "\<forall>j<k. \<not> valid_input d (ps ! j)" by auto
      ultimately show ?R using i(3) by blast
    next
      assume ?R
      then obtain k where k: "k < length ps" "d (ps ! k) = Some sf"
        "1 < length (sf_fields sf)" "\<forall>j<k. \<not> valid_input d (ps ! j)" by blast
      have "\<forall>j<Suc k. \<not> valid_input d ((p # ps) ! j)"
        using True k(4) by (auto simp: nth_Cons split: nat.splits)
      with k show ?L by (intro exI[of _ "Suc k"]) auto
    qed
    with ff Cons.IH show ?thesis by simp
  next
    case False
    then obtain g where g: "d p = Some g" "1 < length (sf_fields g)"
      by (auto simp: valid_input_def split: option.splits)
    then have ff: "find_first d (p # ps) = Some g" by simp
    have "(\<exists>i<length (p # ps). d ((p # ps) ! i) = Some sf \<and> 1 < length (sf_fields sf) \<and>
             (\<forall>j<i. \<not> valid_input d ((p # ps) ! j))) \<longleftrightarrow> g = sf" (is "?L \<longleftrightarrow> _")
    proof
      assume ?L
      then obtain i where i: "i < length (p # ps)" "d ((p # ps) ! i) = Some sf"
        "\<forall>j<i. \<not> valid_input d ((p # ps) ! j)" by blast
      have "i = 0"
      proof (rule ccontr)
        assume "i \<noteq> 0"
        with i(3) have "\<not> valid_input d ((p # ps) ! 0)" by blast
        with False show False by simp
      qed
      with i(2) g show "g = sf" by simp
    next
      assume "g = sf"
      with g show ?L by (intro exI[of _ 0]) auto
    qed
    with ff show ?thesis by simp
  qed
qed

lemma find_first_append:
  "find_first d (a @ b) = (case find_first d a of None \<Rightarrow> find_first d b | Some s \<Rightarrow> Some s)"
  by (induction a) (auto split: option.splits)

lemma find_first_without:
  assumes "find_first d (pre @ x # post) = Some c" and "d x = Some sx"
    and "length (sf_fields sx) \<noteq> length (sf_fields c)"
  shows "find_first d (pre @ post) = Some c"
proof (cases "find_first d pre")
  case None
  with assms have "find_first d (x # post) = Some c"
    by (simp add: find_first_append)
  with assms(2,3) have "find_first d post = Some c"
    by (auto split: if_splits)
  with None show ?thesis by (simp add: find_first_append)
next
  case (Some s)
  with assms(1) show ?thesis by (simp add: find_first_append)
qed

lemma returned_iff:
  "returned (merge_shapefiles ex lib d ps out) \<longleftrightarrow>
     (\<exists>sf. find_first d ps = Some sf \<and> shapeRecords sf \<noteq> [])"
  by (cases ps)
     (auto simp: merge_shapefiles_def Let_def truthy_def reader_len_def
        split: option.splits prod.splits)

lemma merge_success:
  assumes "returned (merge_shapefiles ex lib d ps out)" and "find_first d ps = Some c"
  shows "merge_shapefiles ex lib d ps out =
       \<lparr>returned = True,
        writer_state = Some (w_close (writer_after lib d c ps out)),
        reported = snd (merge_loop lib d c ps (copy_fields (sf_fields c) (Writer out))),
        prj_copied = (if ex (replace ''.shp'' ''.prj'' (hd ps))
                      then Some (replace ''.shp'' ''.prj'' (hd ps), replace ''.shp'' ''.prj'' out)
                      else None)\<rparr>"
proof (cases ps)
  case Nil
  with assms show ?thesis by simp
next
  case (Cons p0 rest)
  from assms have t: "truthy c"
    by (auto simp: returned_iff truthy_def reader_len_def)
  show ?thesis
    unfolding Cons merge_shapefiles_def writer_after_def
    using assms(2) t
    by (simp add: Cons Let_def split: prod.splits del: merge_loop.simps replace.simps)
qed

lemma merge_failure:
  "\<not> returned (merge_shapefiles ex lib d ps out) \<Longrightarrow>
     record_count (merge_shapefiles ex lib d ps out) = 0"
  by (cases ps)
     (auto simp: merge_shapefiles_def Let_def record_count_def Writer_def
           split: option.splits if_splits prod.splits)

lemma writer_after_count_le:
  "length (w_records (writer_after lib d c ps out)) \<le>
     (\<Sum>p\<leftarrow>ps. contribution d (length (sf_fields c)) p)"
  using merge_loop_count_le[of lib d c ps "copy_fields (sf_fields c) (Writer out)"]
  by (simp add: writer_after_def copy_fields_eq Writer_def)

lemma length_appended: "length (appended d n p) = contribution d n p"
  by (auto simp: appended_def contribution_def iterShapeRecords_def min.commute
        split: option.splits)

lemma length_concat_appended:
  "length (concat (map (appended d n) ps)) = (\<Sum>p\<leftarrow>ps. contribution d n p)"
  by (induction ps) (simp_all add: length_appended)

lemma writer_after_count:
  assumes "WriteFailed \<notin>
             snd ` set (snd (merge_loop lib d c ps (copy_fields (sf_fields c) (Writer out))))"
  shows "length (w_records (writer_after lib d c ps out)) =
           (\<Sum>p\<leftarrow>ps. contribution d (length (sf_fields c)) p)"
  unfolding writer_after_def merge_loop_all[OF assms]
  by (simp add: copy_fields_eq Writer_def length_concat_appended)

lemma writer_after_skip:
  assumes "d x = Some sx" and "length (sf_fields sx) \<noteq> length (sf_fields c)"
  shows "writer_after lib d c (pre @ x # post) out = writer_after lib d c (pre @ post) out"
proof -
  have s: "merge_file lib d c x w = (w, None)" for w
    using assms by (rule merge_file_skip)
  show ?thesis
    unfolding writer_after_def merge_loop_append merge_loop_Cons s by simp
qed

text \<open>
  C1, as amended. When the merge returns success, the number of records of the output
  is at most the sum, over the input paths, of what is read from each: nothing for a
  path that does not open or whose field-descriptor count differs from the canonical
  source's, and otherwise the number of records read from it before a read error (all
  of its records when there is none). It is that sum when no call of the writer raises.
  A file in the list whose field-descriptor count differs from that of the canonical
  source of this list, so that it is not the canonical source itself, can be left out
  of the list without changing the record count of the output.
\<close>

theorem merge_record_count:
  "(returned (merge_shapefiles ex lib d ps out) \<and> find_first d ps = Some c \<longrightarrow>
      record_count (merge_shapefiles ex lib d ps out) \<le>
        (\<Sum>p\<leftarrow>ps. contribution d (length (sf_fields c)) p)) \<and>
   (returned (merge_shapefiles ex lib d ps out) \<and> find_first d ps = Some c \<and>
    no_write_error (merge_shapefiles ex lib d ps out) \<longrightarrow>
      record_count (merge_shapefiles ex lib d ps out) =
        (\<Sum>p\<leftarrow>ps. contribution d (length (sf_fields c)) p)) \<and>
   (find_first d (pre @ x # post) = Some c \<and> d x = Some sx \<and>
    length (sf_fields sx) \<noteq> length (sf_fields c) \<longrightarrow>
      record_count (merge_shapefiles ex lib d (pre @ x # post) out) =
      record_count (merge_shapefiles ex lib d (pre @ post) out))"
proof (intro conjI impI)
  assume h: "returned (merge_shapefiles ex lib d ps out) \<and> find_first d ps = Some c"
  then have "merge_shapefiles ex lib d ps out =
       \<lparr>returned = True,
        writer_state = Some (w_close (writer_after lib d c ps out)),
        reported = snd (merge_loop lib d c ps (copy_fields (sf_fields c) (Writer out))),
        prj_copied = (if ex (replace ''.shp'' ''.prj'' (hd ps))
                      then Some (replace ''.shp'' ''.prj'' (hd ps), replace ''.shp'' ''.prj'' out)
                      else None)\<rparr>"
    using merge_success by blast
  then show "record_count (merge_shapefiles ex lib d ps out) \<le>
        (\<Sum>p\<leftarrow>ps. contribution d (length (sf_fields c)) p)"
    using writer_after_count_le[of lib d c ps out]
    by (simp add: record_count_def w_close_def)
next
  assume h: "returned (merge_shapefiles ex lib d ps out) \<and> find_first d ps = Some c \<and>
    no_write_error (merge_shapefiles ex lib d ps out)"
  then have m: "merge_shapefiles ex lib d ps out =
       \<lparr>returned = True,
        writer_state = Some (w_close (writer_after lib d c ps out)),
        reported = snd (merge_loop lib d c ps (copy_fields (sf_fields c) (Writer out))),
        prj_copied = (if ex (replace ''.shp'' ''.prj'' (hd ps))
                      then Some (replace ''.shp'' ''.prj'' (hd ps), replace ''.shp'' ''.prj'' out)
                      else None)\<rparr>"
    using merge_success by blast
  with h have "WriteFailed \<notin>
      snd ` set (snd (merge_loop lib d c ps (copy_fields (sf_fields c) (Writer out))))"
    by (simp add: no_write_error_def)
  from writer_after_count[OF this] m
  show "record_count (merge_shapefiles ex lib d ps out) =
        (\<Sum>p\<leftarrow>ps. contribution d (length (sf_fields c)) p)"
    by (simp add: record_count_def w_close_def)
next
  assume h: "find_first d (pre @ x # post) = Some c \<and> d x = Some sx \<and>
    length (sf_fields sx) \<noteq> length (sf_fields c)"
  let ?with = "merge_shapefiles ex lib d (pre @ x # post) out"
  let ?without = "merge_shapefiles ex lib d (pre @ post) out"
  from h have fw: "find_first d (pre @ x # post) = Some c" by simp
  from h have fo: "find_first d (pre @ post) = Some c"
    using find_first_without by blast
  have r: "returned ?with = returned ?without"
    by (simp add: returned_iff fw fo)
  show "record_count ?with = record_count ?without"
  proof (cases "returned ?without")
    case True
    with r have rw: "returned ?with" by simp
    have "writer_after lib d c (pre @ x # post) out = writer_after lib d c (pre @ post) out"
      using h writer_after_skip by blast
    then show ?thesis
      unfolding merge_success[OF rw fw] merge_success[OF True fo]
      by (simp add: record_count_def)
  next
    case False
    with r show ?thesis by (simp add: merge_failure)
  qed
qed

lemma disk_simps:
  "example_disk ''/tmp/w/riga.shp'' = Some riga_sf"
  "example_disk ''/tmp/w/jelgava.shp'' = Some jelgava_sf"
  "example_disk ''/tmp/w/torn.shp'' = Some torn_sf"
  "example_disk ''/tmp/w/other.shp'' = Some other_sf"
  "example_disk ''/tmp/w/names.shp'' = Some names_sf"
  "example_disk ''/tmp/w/points.shp'' = Some points_sf"
  "example_disk ''/tmp/w/empty.shp'' = Some empty_sf"
  "example_disk ''/tmp/w/flag_only.shp'' = Some flag_only_sf"
  "example_disk ''/tmp/w/KKParcel.SHP'' = Some upper_sf"
  "example_disk ''/tmp/w/bad.shp'' = None"
  by (simp_all add: example_disk_def)

lemma field_counts:
  "length (sf_fields riga_sf) = 3" "length (sf_fields jelgava_sf) = 3"
  "length (sf_fields torn_sf) = 3" "length (sf_fields other_sf) = 2"
  "length (sf_fields names_sf) = 3" "length (sf_fields points_sf) = 3"
  "length (sf_fields empty_sf) = 3" "length (sf_fields flag_only_sf) = 1"
  "length (sf_fields upper_sf) = 3"
  by (simp_all add: riga_sf_def jelgava_sf_def torn_sf_def other_sf_def names_sf_def
      points_sf_def empty_sf_def flag_only_sf_def upper_sf_def parcel_fields_def)

lemmas reader_defs = riga_sf_def jelgava_sf_def torn_sf_def other_sf_def names_sf_def
  points_sf_def empty_sf_def flag_only_sf_def upper_sf_def

lemma contribution_simps:
  "contribution example_disk 3 ''/tmp/w/riga.shp'' = 2"
  "contribution example_disk 3 ''/tmp/w/jelgava.shp'' = 3"
  "contribution example_disk 3 ''/tmp/w/torn.shp'' = 1"
  "contribution example_disk 3 ''/tmp/w/other.shp'' = 0"
  "contribution example_disk 3 ''/tmp/w/names.shp'' = 2"
  "contribution example_disk 3 ''/tmp/w/points.shp'' = 1"
  "contribution example_disk 3 ''/tmp/w/bad.shp'' = 0"
  "contribution example_disk 2 ''/tmp/w/riga.shp'' = 0"
  "contribution example_disk 2 ''/tmp/w/jelgava.shp'' = 0"
  "contribution example_disk 2 ''/tmp/w/other.shp'' = 1"
  by (simp_all add: contribution_def disk_simps field_counts)
     (simp_all add: reader_defs)

lemmas merge_eval = merge_file_def iterShapeRecords_def example_checks_def w_record_def
  w_shape_def value_fits_def is_number_def is_decimal_def code_def parcel_fields_def
  Writer_def w_field_def disk_simps field_counts reader_defs

lemma eval_five:
  "merge_loop example_checks example_disk riga_sf
     [''/tmp/w/bad.shp'', ''/tmp/w/riga.shp'', ''/tmp/w/torn.shp'', ''/tmp/w/other.shp'',
      ''/tmp/w/jelgava.shp'']
     (copy_fields (sf_fields riga_sf) (Writer ''/tmp/w/Parcels_merged.shp'')) =
   (\<lparr>target = ''/tmp/w/Parcels_merged.shp'',
     w_fields = [(''CODE'', ''C'', 14, 0), (''AREA'', ''N'', 12, 2)],
     w_records = [[''0100'', ''10.5''], [''0101'', ''7''], [''0500'', ''4''],
                  [''0900'', ''1''], [''0901'', ''2''], [''0902'', ''3'']],
     w_shapes = [(5, 1), (5, 2), (5, 6), (5, 3), (5, 4), (5, 5)],
     closed = False\<rparr>,
    [(''/tmp/w/bad.shp'', OpenFailed), (''/tmp/w/torn.shp'', ReadFailed)])"
  by (simp add: merge_eval)

lemma eval_torn:
  "merge_loop example_checks example_disk torn_sf [''/tmp/w/torn.shp'']
     (copy_fields (sf_fields torn_sf) (Writer ''/tmp/w/Parcels_merged.shp'')) =
   (\<lparr>target = ''/tmp/w/Parcels_merged.shp'',
     w_fields = [(''CODE'', ''C'', 14, 0), (''AREA'', ''N'', 12, 2)],
     w_records = [[''0500'', ''4'']], w_shapes = [(5, 6)], closed = False\<rparr>,
    [(''/tmp/w/torn.shp'', ReadFailed)])"
  by (simp add: merge_eval)

lemma eval_riga_jelgava:
  "merge_loop example_checks example_disk riga_sf
     [''/tmp/w/riga.shp'', ''/tmp/w/jelgava.shp'']
     (copy_fields (sf_fields riga_sf) (Writer ''/tmp/w/Parcels_merged.shp'')) =
   (\<lparr>target = ''/tmp/w/Parcels_merged.shp'',
     w_fields = [(''CODE'', ''C'', 14, 0), (''AREA'', ''N'', 12, 2)],
     w_records = [[''0100'', ''10.5''], [''0101'', ''7''],
                  [''0900'', ''1''], [''0901'', ''2''], [''0902'', ''3'']],
     w_shapes = [(5, 1), (5, 2), (5, 3), (5, 4), (5, 5)],
     closed = False\<rparr>, [])"
  by (simp add: merge_eval)

lemma eval_other_first:
  "merge_loop example_checks example_disk other_sf
     [''/tmp/w/other.shp'', ''/tmp/w/riga.shp'', ''/tmp/w/jelgava.shp'']
     (copy_fields (sf_fields other_sf) (Writer ''/tmp/w/Parcels_merged.shp'')) =
   (\<lparr>target = ''/tmp/w/Parcels_merged.shp'',
     w_fields = [(''NAME'', ''C'', 40, 0)],
     w_records = [[''x'']], w_shapes = [(5, 9)], closed = False\<rparr>, [])"
  by (simp add: merge_eval)

lemma eval_riga_names:
  "merge_loop example_checks example_disk riga_sf
     [''/tmp/w/riga.shp'', ''/tmp/w/names.shp'']
     (copy_fields (sf_fields riga_sf) (Writer ''/tmp/w/Parcels_merged.shp'')) =
   (\<lparr>target = ''/tmp/w/Parcels_merged.shp'',
     w_fields = [(''CODE'', ''C'', 14, 0), (''AREA'', ''N'', 12, 2)],
     w_records = [[''0100'', ''10.5''], [''0101'', ''7'']],
     w_shapes = [(5, 1), (5, 2)], closed = False\<rparr>,
    [(''/tmp/w/names.shp'', WriteFailed)])"
  by (simp add: merge_eval)

lemma eval_riga_torn_jelgava:
  "merge_loop example_checks example_disk riga_sf
     [''/tmp/w/riga.shp'', ''/tmp/w/torn.shp'', ''/tmp/w/jelgava.shp'']
     (copy_fields (sf_fields riga_sf) (Writer ''/tmp/w/Parcels_merged.shp'')) =
   (\<lparr>target = ''/tmp/w/Parcels_merged.shp'',
     w_fields = [(''CODE'', ''C'', 14, 0), (''AREA'', ''N'', 12, 2)],
     w_records = [[''0100'', ''10.5''], [''0101'', ''7''], [''0500'', ''4''],
                  [''0900'', ''1''], [''0901'', ''2''], [''0902'', ''3'']],
     w_shapes = [(5, 1), (5, 2), (5, 6), (5, 3), (5, 4), (5, 5)],
     closed = False\<rparr>,
    [(''/tmp/w/torn.shp'', ReadFailed)])"
  by (simp add: merge_eval)

lemma find_first_simps:
  "find_first example_disk
     [''/tmp/w/bad.shp'', ''/tmp/w/riga.shp'', ''/tmp/w/torn.shp'', ''/tmp/w/other.shp'',
      ''/tmp/w/jelgava.shp''] = Some riga_sf"
  "find_first example_disk [''/tmp/w/torn.shp''] = Some torn_sf"
  "find_first example_disk [''/tmp/w/riga.shp'', ''/tmp/w/jelgava.shp''] = Some riga_sf"
  "find_first example_disk
     [''/tmp/w/other.shp'', ''/tmp/w/riga.shp'', ''/tmp/w/jelgava.shp''] = Some other_sf"
  "find_first example_disk
     [''/tmp/w/riga.shp'', ''/tmp/w/other.shp'', ''/tmp/w/jelgava.shp''] = Some riga_sf"
  "find_first example_disk [''/tmp/w/riga.shp'', ''/tmp/w/names.shp''] = Some riga_sf"
  "find_first example_disk
     [''/tmp/w/riga.shp'', ''/tmp/w/torn.shp'', ''/tmp/w/jelgava.shp''] = Some riga_sf"
  "find_first example_disk
     [''/tmp/w/bad.shp'', ''/tmp/w/flag_only.shp'', ''/tmp/w/other.shp'', ''/tmp/w/riga.shp'']
     = Some other_sf"
  "find_first example_disk [''/tmp/w/empty.shp'', ''/tmp/w/riga.shp''] = Some empty_sf"
  "find_first example_disk [''/tmp/w/bad.shp''] = None"
  "find_first example_disk [''/tmp/w/KKParcel.SHP''] = Some upper_sf"
  by (simp_all add: disk_simps field_counts)

lemma nonempty_readers:
  "shapeRecords riga_sf \<noteq> []" "shapeRecords torn_sf \<noteq> []" "shapeRecords other_sf \<noteq> []"
  "shapeRecords upper_sf \<noteq> []" "shapeRecords empty_sf = []"
  by (simp_all add: reader_defs)

text \<open>The outcome of a merge that returns success, from the result of its loop.\<close>

lemma merge_outcome:
  assumes "find_first d ps = Some c" and "shapeRecords c \<noteq> []"
    and "merge_loop lib d c ps (copy_fields (sf_fields c) (Writer out)) = (w, es)"
  shows "returned (merge_shapefiles ex lib d ps out)"
    and "writer_state (merge_shapefiles ex lib d ps out) = Some (w_close w)"
    and "reported (merge_shapefiles ex lib d ps out) = es"
    and "record_count (merge_shapefiles ex lib d ps out) = length (w_records w)"
proof -
  show r: "returned (merge_shapefiles ex lib d ps out)"
    using assms(1,2) by (simp add: returned_iff)
  note m = merge_success[OF r assms(1)]
  show "writer_state (merge_shapefiles ex lib d ps out) = Some (w_close w)"
    and "reported (merge_shapefiles ex lib d ps out) = es"
    and "record_count (merge_shapefiles ex lib d ps out) = length (w_records w)"
    unfolding m by (simp_all add: writer_after_def assms(3) record_count_def w_close_def)
qed

theorem merge_record_count_witness:
  "record_count (merge_shapefiles example_exists example_checks example_disk
      [''/tmp/w/bad.shp'', ''/tmp/w/riga.shp'', ''/tmp/w/torn.shp'', ''/tmp/w/other.shp'',
       ''/tmp/w/jelgava.shp''] ''/tmp/w/Parcels_merged.shp'') = 6 \<and>
   record_count (merge_shapefiles example_exists example_checks example_disk
      [''/tmp/w/riga.shp'', ''/tmp/w/other.shp'', ''/tmp/w/jelgava.shp'']
      ''/tmp/w/Parcels_merged.shp'') =
   record_count (merge_shapefiles example_exists example_checks example_disk
      [''/tmp/w/riga.shp'', ''/tmp/w/jelgava.shp''] ''/tmp/w/Parcels_merged.shp'')"
proof -
  let ?ps = "[''/tmp/w/bad.shp'', ''/tmp/w/riga.shp'', ''/tmp/w/torn.shp'', ''/tmp/w/other.shp'',
       ''/tmp/w/jelgava.shp'']"
  let ?out = "''/tmp/w/Parcels_merged.shp''"
  note o = merge_outcome [OF find_first_simps(1) nonempty_readers(1) eval_five,
      of example_exists]
  have n: "no_write_error (merge_shapefiles example_exists example_checks example_disk ?ps ?out)"
    by (simp add: no_write_error_def o(3))
  have s: "(\<Sum>p\<leftarrow>?ps. contribution example_disk (length (sf_fields riga_sf)) p) = 6"
    by (simp add: contribution_simps field_counts)
  have g: "find_first example_disk
             ([''/tmp/w/riga.shp''] @ ''/tmp/w/other.shp'' # [''/tmp/w/jelgava.shp'']) =
           Some riga_sf"
    using find_first_simps(5) by simp
  show ?thesis
    using merge_record_count [where ex = example_exists and lib = example_checks
        and d = example_disk and ps = ?ps and out = ?out and c = riga_sf
        and pre = "[''/tmp/w/riga.shp'']" and post = "[''/tmp/w/jelgava.shp'']"
        and x = "''/tmp/w/other.shp''" and sx = other_sf]
      find_first_simps(1) o(1) n s g
    by (simp add: disk_simps field_counts)
qed

theorem merge_record_count_counterexample:
  "example_disk ''/tmp/w/torn.shp'' = Some torn_sf \<and>
   length (shapeRecords torn_sf) = 3 \<and>
   find_first example_disk [''/tmp/w/torn.shp''] = Some torn_sf \<and>
   returned (merge_shapefiles example_exists example_checks example_disk
     [''/tmp/w/torn.shp''] ''/tmp/w/Parcels_merged.shp'') \<and>
   record_count (merge_shapefiles example_exists example_checks example_disk
     [''/tmp/w/torn.shp''] ''/tmp/w/Parcels_merged.shp'') = 1 \<and>
   example_disk ''/tmp/w/names.shp'' = Some names_sf \<and>
   length (sf_fields names_sf) = length (sf_fields riga_sf) \<and>
   length (shapeRecords names_sf) = 2 \<and> fail_at names_sf = None \<and>
   find_first example_disk [''/tmp/w/riga.shp'', ''/tmp/w/names.shp''] = Some riga_sf \<and>
   returned (merge_shapefiles example_exists example_checks example_disk
     [''/tmp/w/riga.shp'', ''/tmp/w/names.shp''] ''/tmp/w/Parcels_merged.shp'') \<and>
   record_count (merge_shapefiles example_exists example_checks example_disk
     [''/tmp/w/riga.shp'', ''/tmp/w/names.shp''] ''/tmp/w/Parcels_merged.shp'') = 2 \<and>
   length (shapeRecords riga_sf) = 2 \<and>
   example_disk ''/tmp/w/other.shp'' = Some other_sf \<and>
   length (sf_fields other_sf) = 2 \<and>
   find_first example_disk [''/tmp/w/riga.shp'', ''/tmp/w/jelgava.shp''] = Some riga_sf \<and>
   length (sf_fields riga_sf) = 3 \<and>
   record_count (merge_shapefiles example_exists example_checks example_disk
     [''/tmp/w/riga.shp'', ''/tmp/w/jelgava.shp''] ''/tmp/w/Parcels_merged.shp'') = 5 \<and>
   record_count (merge_shapefiles example_exists example_checks example_disk
     [''/tmp/w/other.shp'', ''/tmp/w/riga.shp'', ''/tmp/w/jelgava.shp'']
     ''/tmp/w/Parcels_merged.shp'') = 1"
proof -
  note t = merge_outcome [OF find_first_simps(2) nonempty_readers(2) eval_torn,
      of example_exists]
  note n = merge_outcome [OF find_first_simps(6) nonempty_readers(1) eval_riga_names,
      of example_exists]
  note j = merge_outcome [OF find_first_simps(3) nonempty_readers(1) eval_riga_jelgava,
      of example_exists]
  note f = merge_outcome [OF find_first_simps(4) nonempty_readers(3) eval_other_first,
      of example_exists]
  have l: "length (shapeRecords torn_sf) = 3" "length (shapeRecords names_sf) = 2"
    "fail_at names_sf = None" "length (shapeRecords riga_sf) = 2"
    by (simp_all add: reader_defs)
  show ?thesis
    using t(1,4) n(1,4) j(4) f(4) l
    by (simp add: disk_simps field_counts find_first_simps)
qed

text \<open>
  C5. When the merge succeeds, the schema of the output is the field-descriptor
  sequence of the canonical source, the first path of the list that opens and has more
  than one field descriptor, with the deletion-marker pseudo-field removed and the
  other descriptors kept in order.
\<close>

theorem merge_output_schema:
  assumes "returned (merge_shapefiles ex lib d ps out)"
  shows "\<exists>i sf w. i < length ps \<and> d (ps ! i) = Some sf \<and> 1 < length (sf_fields sf) \<and>
           (\<forall>j<i. \<not> valid_input d (ps ! j)) \<and>
           writer_state (merge_shapefiles ex lib d ps out) = Some w \<and>
           w_fields w = filter (\<lambda>f. fst f \<noteq> ''DeletionFlag'') (sf_fields sf)"
proof -
  from assms obtain c where c: "find_first d ps = Some c"
    by (auto simp: returned_iff)
  then obtain i where i: "i < length ps" "d (ps ! i) = Some c" "1 < length (sf_fields c)"
    "\<forall>j<i. \<not> valid_input d (ps ! j)"
    by (auto simp: find_first_Some)
  let ?w = "w_close (writer_after lib d c ps out)"
  have "writer_state (merge_shapefiles ex lib d ps out) = Some ?w"
    by (simp add: merge_success[OF assms c])
  moreover have "w_fields ?w = filter (\<lambda>f. fst f \<noteq> ''DeletionFlag'') (sf_fields c)"
    by (simp add: w_close_def writer_after_def merge_loop_fields copy_fields_eq Writer_def)
  ultimately show ?thesis using i by blast
qed

theorem merge_output_schema_witness:
  "returned (merge_shapefiles example_exists example_checks example_disk
      [''/tmp/w/bad.shp'', ''/tmp/w/flag_only.shp'', ''/tmp/w/other.shp'', ''/tmp/w/riga.shp'']
      ''/tmp/w/Parcels_merged.shp'') \<and>
   (\<exists>i sf w. i < length [''/tmp/w/bad.shp'', ''/tmp/w/flag_only.shp'', ''/tmp/w/other.shp'',
                          ''/tmp/w/riga.shp''] \<and>
      example_disk ([''/tmp/w/bad.shp'', ''/tmp/w/flag_only.shp'', ''/tmp/w/other.shp'',
                     ''/tmp/w/riga.shp''] ! i) = Some sf \<and>
      1 < length (sf_fields sf) \<and>
      writer_state (merge_shapefiles example_exists example_checks example_disk
        [''/tmp/w/bad.shp'', ''/tmp/w/flag_only.shp'', ''/tmp/w/other.shp'', ''/tmp/w/riga.shp'']
        ''/tmp/w/Parcels_merged.shp'') = Some w \<and>
      w_fields w = filter (\<lambda>f. fst f \<noteq> ''DeletionFlag'') (sf_fields sf))"
proof -
  have r: "returned (merge_shapefiles example_exists example_checks example_disk
      [''/tmp/w/bad.shp'', ''/tmp/w/flag_only.shp'', ''/tmp/w/other.shp'', ''/tmp/w/riga.shp'']
      ''/tmp/w/Parcels_merged.shp'')"
    unfolding returned_iff find_first_simps(8) by (simp add: nonempty_readers)
  from merge_output_schema [OF r] r show ?thesis by blast
qed








text \<open>
  A call of the writer that raises also ends the file. Where \<open>w.record\<close> takes the
  record and \<open>w.shape\<close> raises on the shape, the output holds one record more than it
  holds shapes.
\<close>

lemma eval_riga_points:
  "merge_loop example_checks example_disk riga_sf [''/tmp/w/riga.shp'', ''/tmp/w/points.shp'']
     (copy_fields (sf_fields riga_sf) (Writer ''/tmp/w/Parcels_merged.shp'')) =
   (\<lparr>target = ''/tmp/w/Parcels_merged.shp'',
      w_fields = [(''CODE'', ''C'', 14, 0), (''AREA'', ''N'', 12, 2)],
      w_records = [[''0100'', ''10.5''], [''0101'', ''7''], [''0700'', ''9'']],
      w_shapes = [(5, 1), (5, 2)], closed = False\<rparr>,
    [(''/tmp/w/points.shp'', WriteFailed)])"
  by (simp add: merge_eval)

lemma merge_empty_list:
  "merge_shapefiles ex lib d [] out =
     \<lparr>returned = False, writer_state = None, reported = [], prj_copied = None\<rparr>"
  by (simp add: merge_shapefiles_def)

lemma merge_shapefiles_returned:
  "returned (merge_shapefiles ex lib d ps out) \<longleftrightarrow>
     (\<exists>i sf. i < length ps \<and> d (ps ! i) = Some sf \<and> 1 < length (sf_fields sf) \<and>
        (\<forall>j<i. \<not> valid_input d (ps ! j)) \<and> shapeRecords sf \<noteq> [])"
  unfolding returned_iff find_first_Some by blast

text \<open>
  C2. The merge is to return failure exactly when the list is empty or no path opens
  with more than one field descriptor, and to leave no output file in either case.
  Here two paths open with more than one field descriptor and the merge returns
  failure: the first has no record, and \<open>not first_sf\<close> holds of its reader. And
  where the only path does not open, the writer has been created on the output path
  before the merge returns failure.
\<close>

theorem merge_fails_on_empty_first_file:
  "valid_input example_disk ''/tmp/w/empty.shp'' \<and>
   valid_input example_disk ''/tmp/w/riga.shp'' \<and>
   \<not> returned (merge_shapefiles example_exists example_checks example_disk
         [''/tmp/w/empty.shp'', ''/tmp/w/riga.shp''] ''/tmp/w/Parcels_merged.shp'') \<and>
   \<not> returned (merge_shapefiles example_exists example_checks example_disk
         [''/tmp/w/bad.shp''] ''/tmp/w/Parcels_merged.shp'') \<and>
   writer_state (merge_shapefiles example_exists example_checks example_disk
         [''/tmp/w/bad.shp''] ''/tmp/w/Parcels_merged.shp'') =
     Some (Writer ''/tmp/w/Parcels_merged.shp'')"
proof -
  have a: "\<not> returned (merge_shapefiles example_exists example_checks example_disk
         [''/tmp/w/empty.shp'', ''/tmp/w/riga.shp''] ''/tmp/w/Parcels_merged.shp'')"
    unfolding returned_iff find_first_simps(9) by (simp add: nonempty_readers)
  have b: "\<not> returned (merge_shapefiles example_exists example_checks example_disk
         [''/tmp/w/bad.shp''] ''/tmp/w/Parcels_merged.shp'')"
    unfolding returned_iff find_first_simps(10) by simp
  have c: "writer_state (merge_shapefiles example_exists example_checks example_disk
         [''/tmp/w/bad.shp''] ''/tmp/w/Parcels_merged.shp'') =
     Some (Writer ''/tmp/w/Parcels_merged.shp'')"
    using find_first_simps(10) by (simp add: merge_shapefiles_def)
  have v: "valid_input example_disk ''/tmp/w/empty.shp''"
    "valid_input example_disk ''/tmp/w/riga.shp''"
    by (simp_all add: valid_input_def disk_simps field_counts)
  from v a b c show ?thesis by blast
qed

lemma replace_shp_upper:
  "replace ''.shp'' ''.prj'' ''/tmp/w/KKParcel.SHP'' = ''/tmp/w/KKParcel.SHP''"
  by (simp add: startswith_def)

lemma replace_shp_out:
  "replace ''.shp'' ''.prj'' ''/tmp/w/Parcels_merged.shp'' = ''/tmp/w/Parcels_merged.prj''"
  by (simp add: startswith_def)

text \<open>
  C6. On success the projection sidecar of the first path is to be copied if it
  exists, and no projection file written otherwise. Here the first path has an
  upper-case extension and no projection sidecar: \<open>replace\<close> leaves the path as it
  is, the path exists, and the geometry file is copied to the projection path of the
  output.
\<close>

theorem merge_copies_geometry_as_projection:
  "returned (merge_shapefiles example_exists example_checks example_disk
      [''/tmp/w/KKParcel.SHP''] ''/tmp/w/Parcels_merged.shp'') \<and>
   prj_sidecar ''/tmp/w/KKParcel.SHP'' = ''/tmp/w/KKParcel.prj'' \<and>
   \<not> example_exists ''/tmp/w/KKParcel.prj'' \<and>
   prj_copied (merge_shapefiles example_exists example_checks example_disk
      [''/tmp/w/KKParcel.SHP''] ''/tmp/w/Parcels_merged.shp'') =
     Some (''/tmp/w/KKParcel.SHP'', ''/tmp/w/Parcels_merged.prj'')"
proof -
  have r: "returned (merge_shapefiles example_exists example_checks example_disk
      [''/tmp/w/KKParcel.SHP''] ''/tmp/w/Parcels_merged.shp'')"
    unfolding returned_iff find_first_simps(11) by (simp add: nonempty_readers)
  have s: "prj_sidecar ''/tmp/w/KKParcel.SHP'' = ''/tmp/w/KKParcel.prj''"
    by (simp add: prj_sidecar_def rsplit1_head_def)
  have n: "\<not> example_exists ''/tmp/w/KKParcel.prj''"
    by (simp add: example_exists_def example_disk_def)
  have e: "example_exists ''/tmp/w/KKParcel.SHP''"
    by (simp add: example_exists_def disk_simps)
  have c: "prj_copied (merge_shapefiles example_exists example_checks example_disk
      [''/tmp/w/KKParcel.SHP''] ''/tmp/w/Parcels_merged.shp'') =
     Some (''/tmp/w/KKParcel.SHP'', ''/tmp/w/Parcels_merged.prj'')"
    unfolding merge_success [OF r find_first_simps(11)]
    using e by (simp add: replace_shp_upper replace_shp_out del: replace.simps)
  from r s n c show ?thesis by blast
qed

lemma replace_at_end:
  assumes "old \<noteq> []" and "\<forall>i<length b. \<not> startswith (drop i (b @ old)) old"
  shows "replace old new (b @ old) = b @ new"
  using assms(2)
proof (induction b)
  case Nil
  from assms(1) obtain x xs where "old = x # xs" by (cases old) auto
  then show ?case by (simp add: startswith_def)
next
  case (Cons y b)
  from Cons.prems have "\<not> startswith ((y # b) @ old) old" by force
  moreover have "\<forall>i<length b. \<not> startswith (drop i (b @ old)) old"
  proof (intro allI impI)
    fix i assume "i < length b"
    then have "Suc i < length (y # b)" by simp
    with Cons.prems have "\<not> startswith (drop (Suc i) ((y # b) @ old)) old" by blast
    then show "\<not> startswith (drop i (b @ old)) old" by simp
  qed
  ultimately show ?case using Cons.IH by simp
qed

lemma prj_sidecar_shp: "prj_sidecar (b @ ''.shp'') = b @ ''.prj''"
  by (simp add: prj_sidecar_def rsplit1_head_def)

lemma prj_copied_lower_case_extension:
  assumes "returned (merge_shapefiles ex lib d ((b @ ''.shp'') # rest) out)"
    and "\<forall>i<length b. \<not> startswith (drop i (b @ ''.shp'')) ''.shp''"
  shows "prj_copied (merge_shapefiles ex lib d ((b @ ''.shp'') # rest) out) =
           (if ex (prj_sidecar (b @ ''.shp''))
            then Some (prj_sidecar (b @ ''.shp''), replace ''.shp'' ''.prj'' out)
            else None)"
proof -
  from assms(1) obtain c where c: "find_first d ((b @ ''.shp'') # rest) = Some c"
    by (auto simp: returned_iff)
  have "replace ''.shp'' ''.prj'' (b @ ''.shp'') = b @ ''.prj''"
    using assms(2) by (intro replace_at_end) simp_all
  then show ?thesis
    unfolding merge_success [OF assms(1) c] by (simp add: prj_sidecar_shp del: replace.simps)
qed

section \<open>Properties of the catalog\<close>

lemma code_less: "code c < 256"
  by (simp add: code_def)

lemma code_char_of: "n < 256 \<Longrightarrow> code (char_of n) = n"
  by (simp add: code_def)

lemma code_inject: "code c = code c' \<longleftrightarrow> c = c'"
  by (simp add: code_def)

lemma code_upper_char:
  "code (upper_char c) = (if 97 \<le> code c \<and> code c \<le> 122 then code c - 32 else code c)"
  using code_less[of c] by (simp add: upper_char_def code_char_of)

lemma code_lower_char:
  "code (lower_char c) = (if 65 \<le> code c \<and> code c \<le> 90 then code c + 32 else code c)"
  using code_less[of c] by (simp add: lower_char_def code_char_of)

lemma upper_lower_char:
  "upper_char c = upper_char c' \<longleftrightarrow> lower_char c = lower_char c'"
proof -
  have "code (upper_char c) = code (upper_char c') \<longleftrightarrow>
        code (lower_char c) = code (lower_char c')"
    unfolding code_upper_char code_lower_char by (auto split: if_splits)
  then show ?thesis by (simp only: code_inject)
qed

lemma upper_lower: "upper a = upper b \<longleftrightarrow> lower a = lower b"
proof (induction a arbitrary: b)
  case Nil
  show ?case by (auto simp: upper_def lower_def)
next
  case (Cons x a)
  show ?case
  proof (cases b)
    case Nil
    then show ?thesis by (simp add: upper_def lower_def)
  next
    case (Cons y b')
    with Cons.IH[of b'] show ?thesis
      by (simp add: upper_def lower_def upper_lower_char)
  qed
qed

lemma upper_SHP: "upper ''SHP'' = ''SHP''" and upper_ZIP: "upper ''ZIP'' = ''ZIP''"
  by (simp_all add: upper_def upper_char_def code_def)

lemma upper_is_SHP: "upper f = ''SHP'' \<longleftrightarrow> ci_equal f ''SHP''"
  using upper_lower[of f "''SHP''"] by (simp add: upper_SHP ci_equal_def)

lemma upper_is_ZIP: "upper f = ''ZIP'' \<longleftrightarrow> ci_equal f ''ZIP''"
  using upper_lower[of f "''ZIP''"] by (simp add: upper_ZIP ci_equal_def)

lemma ci_equal_Nil: "\<not> ci_equal [] ''SHP''" "\<not> ci_equal [] ''ZIP''"
  by (simp_all add: ci_equal_def lower_def)

text \<open>What one entry does to the mapping when it raises nothing.\<close>

lemma add_resource_Inr:
  assumes "add_resource res m = Inr m'"
  shows "m' = (if listed res
               then (case (res_name res, res_url res) of
                       (Some (JStr n), Some (JStr u)) \<Rightarrow> m(n \<mapsto> u) | _ \<Rightarrow> m)
               else m)"
  using assms
  by (auto simp: add_resource_def listed_def get_default_def val_upper_def val_lower_def
      val_truthy_def Let_def upper_is_SHP upper_is_ZIP ci_equal_Nil
      split: option.splits jval.splits sum.splits if_splits)

lemma listed_strings:
  assumes "listed r"
  shows "\<exists>n u. res_name r = Some (JStr n) \<and> res_url r = Some (JStr u)"
proof (cases "res_name r")
  case None
  with assms show ?thesis by (simp add: listed_def)
next
  case (Some v)
  note nv = this
  show ?thesis
  proof (cases v)
    case JNull
    with assms nv show ?thesis by (simp add: listed_def)
  next
    case (JStr n)
    show ?thesis
    proof (cases "res_url r")
      case None
      with assms nv JStr show ?thesis by (simp add: listed_def)
    next
      case (Some w)
      with assms nv JStr show ?thesis by (cases w) (simp_all add: listed_def)
    qed
  qed
qed

lemma add_resource_lookup:
  assumes "add_resource r m0 = Inr m1"
  shows "m1 n = Some u \<longleftrightarrow>
           (listed r \<and> res_name r = Some (JStr n) \<and> res_url r = Some (JStr u)) \<or>
           (\<not> (listed r \<and> res_name r = Some (JStr n)) \<and> m0 n = Some u)"
proof (cases "listed r")
  case True
  then obtain nr ur where nu: "res_name r = Some (JStr nr)" "res_url r = Some (JStr ur)"
    using listed_strings by blast
  with True add_resource_Inr[OF assms] have "m1 = m0(nr \<mapsto> ur)" by simp
  with True nu show ?thesis by auto
next
  case False
  with add_resource_Inr[OF assms] show ?thesis by simp
qed

lemma last_listed_Cons:
  "(\<exists>pre e post. r # rs = pre @ e # post \<and> P e \<and> Q e \<and> (\<forall>e'\<in>set post. \<not> P e')) \<longleftrightarrow>
   (\<exists>pre e post. rs = pre @ e # post \<and> P e \<and> Q e \<and> (\<forall>e'\<in>set post. \<not> P e')) \<or>
   (P r \<and> Q r \<and> (\<forall>e'\<in>set rs. \<not> P e'))" (is "?L \<longleftrightarrow> ?A \<or> ?B")
proof
  assume ?L
  then obtain pre e post where h: "r # rs = pre @ e # post" "P e" "Q e"
    "\<forall>e'\<in>set post. \<not> P e'" by blast
  show "?A \<or> ?B"
  proof (cases pre)
    case Nil
    with h show ?thesis by auto
  next
    case (Cons x pre')
    with h have "rs = pre' @ e # post" by simp
    with h show ?thesis by blast
  qed
next
  assume "?A \<or> ?B"
  then show ?L
  proof
    assume ?A
    then obtain pre e post where h: "rs = pre @ e # post" "P e" "Q e"
      "\<forall>e'\<in>set post. \<not> P e'" by blast
    then have "r # rs = (r # pre) @ e # post" by simp
    with h show ?L by blast
  next
    assume ?B
    then have "r # rs = [] @ r # rs" "P r" "Q r" "\<forall>e'\<in>set rs. \<not> P e'" by auto
    then show ?L by blast
  qed
qed

lemma add_resources_lookup:
  assumes "add_resources rs m0 = Inr m"
  shows "m n = Some u \<longleftrightarrow>
     (\<exists>pre e post. rs = pre @ e # post \<and>
        (listed e \<and> res_name e = Some (JStr n)) \<and> res_url e = Some (JStr u) \<and>
        (\<forall>e'\<in>set post. \<not> (listed e' \<and> res_name e' = Some (JStr n)))) \<or>
     ((\<forall>e'\<in>set rs. \<not> (listed e' \<and> res_name e' = Some (JStr n))) \<and> m0 n = Some u)"
  using assms
proof (induction rs arbitrary: m0)
  case Nil
  then show ?case by simp
next
  case (Cons r rs)
  from Cons.prems obtain m1 where s: "add_resource r m0 = Inr m1"
    and t: "add_resources rs m1 = Inr m"
    by (auto split: sum.splits)
  note ih = Cons.IH[OF t]
  note st = add_resource_lookup[OF s, of n u]
  note dc = last_listed_Cons[of r rs "\<lambda>e. listed e \<and> res_name e = Some (JStr n)"
      "\<lambda>e. res_url e = Some (JStr u)"]
  show ?case
    unfolding ih st dc by auto
qed

lemma add_resource_total:
  assumes "res_format res \<noteq> Some JNull" and "res_url res \<noteq> Some JNull"
  shows "\<exists>m'. add_resource res m = Inr m'"
proof -
  obtain f where f: "get_default (res_format res) (JStr []) = JStr f"
    using assms(1) by (cases "res_format res"; cases "get_default (res_format res) (JStr [])")
      (auto simp: get_default_def)
  obtain u where u: "get_default (res_url res) (JStr []) = JStr u"
    using assms(2) by (cases "res_url res"; cases "get_default (res_url res) (JStr [])")
      (auto simp: get_default_def)
  show ?thesis
    by (cases "get_default (res_name res) JNull")
       (simp_all add: add_resource_def f u val_upper_def val_lower_def val_truthy_def Let_def)
qed

lemma add_resources_total:
  assumes "\<forall>res\<in>set rs. res_format res \<noteq> Some JNull \<and> res_url res \<noteq> Some JNull"
  shows "\<exists>m'. add_resources rs m = Inr m'"
  using assms
proof (induction rs arbitrary: m)
  case Nil
  show ?case by simp
next
  case (Cons r rs)
  then obtain m1 where "add_resource r m = Inr m1"
    using add_resource_total[of r m] by auto
  with Cons show ?case by simp
qed

lemma catalog_without_nulls:
  assumes "\<forall>res\<in>set rs. res_format res \<noteq> Some JNull \<and> res_url res \<noteq> Some JNull"
  shows "\<exists>m. get_territory_list (Json \<lparr>success = True, result_resources = Some rs\<rparr>) =
           (None, m)"
  using add_resources_total[OF assms, of Map.empty]
  by (auto simp: get_territory_list_def try_block_def)

lemma catalog_entry_of_unique_name:
  assumes g: "get_territory_list (Json \<lparr>success = True, result_resources = Some rs\<rparr>) =
                (None, m)"
    and e: "e \<in> set rs" "res_name e = Some (JStr n)" "res_url e = Some (JStr u)"
    and uniq: "\<forall>e'\<in>set rs. listed e' \<and> res_name e' = Some (JStr n) \<longrightarrow> e' = e"
  shows "m n = Some u \<longleftrightarrow> listed e"
proof -
  from g have a: "add_resources rs Map.empty = Inr m"
    by (auto simp: get_territory_list_def try_block_def split: sum.splits)
  note look = add_resources_lookup[OF a, of n u, simplified]
  show ?thesis
  proof
    assume "m n = Some u"
    with look obtain pre e' post where "rs = pre @ e' # post" "listed e'"
      "res_name e' = Some (JStr n)" by blast
    with uniq have "e' = e" by auto
    with \<open>listed e'\<close> show "listed e" by simp
  next
    assume l: "listed e"
    from e(1) obtain pre post where s: "rs = pre @ e # post" "e \<notin> set post"
      using split_list_last by fastforce
    have "\<forall>e'\<in>set post. \<not> (listed e' \<and> res_name e' = Some (JStr n))"
    proof
      fix e' assume p: "e' \<in> set post"
      with s(1) have "e' \<in> set rs" by simp
      with uniq p s(2) show "\<not> (listed e' \<and> res_name e' = Some (JStr n))" by blast
    qed
    with s(1) l e(2,3) look show "m n = Some u" by blast
  qed
qed

text \<open>
  C7, as amended. For a response whose success flag is set and whose processing raises
  nothing, the returned mapping sends a name to a URL if and only if some resource
  entry with that name and that URL has a non-empty name, a non-empty URL and either
  a format that is SHP or ZIP in any case or a URL that ends in \<open>.zip\<close> in any
  case, and no later such entry has the same name.
\<close>

theorem catalog_mapping_last_listed:
  assumes "get_territory_list (Json \<lparr>success = True, result_resources = Some rs\<rparr>) = (None, m)"
  shows "m n = Some u \<longleftrightarrow>
     (\<exists>pre e post. rs = pre @ e # post \<and>
        listed e \<and> res_name e = Some (JStr n) \<and> res_url e = Some (JStr u) \<and>
        (\<forall>e'\<in>set post. \<not> (listed e' \<and> res_name e' = Some (JStr n))))"
proof -
  from assms have "add_resources rs Map.empty = Inr m"
    by (auto simp: get_territory_list_def try_block_def split: sum.splits)
  from add_resources_lookup[OF this, of n u] show ?thesis by simp
qed

lemmas string_eval = lower_def lower_char_def upper_def upper_char_def code_def char_of_eq_iff
  endswith_def startswith_def

lemma add_riga_old:
  "add_resource riga_old m = Inr (m(''1. Riga'' \<mapsto> ''https://x/riga_old.zip''))"
  by (simp add: add_resource_def riga_old_def get_default_def val_upper_def val_lower_def
      val_truthy_def string_eval)

lemma add_riga_new:
  "add_resource riga_new m = Inr (m(''1. Riga'' \<mapsto> ''https://x/riga.zip''))"
  by (simp add: add_resource_def riga_new_def get_default_def val_upper_def val_lower_def
      val_truthy_def string_eval)

lemma add_jelgava:
  "add_resource jelgava_res m = Inr (m(''10. Jelgava'' \<mapsto> ''https://x/jelgava.ZIP''))"
  by (simp add: add_resource_def jelgava_res_def get_default_def val_upper_def val_lower_def
      val_truthy_def string_eval)

lemma add_readme: "add_resource readme_res m = Inr m"
  by (simp add: add_resource_def readme_res_def get_default_def val_upper_def val_lower_def
      val_truthy_def string_eval)

lemma add_null_format: "add_resource null_format_res m = Inl AttributeError"
  by (simp add: add_resource_def null_format_res_def get_default_def val_upper_def)

lemma listed_riga_old: "listed riga_old"
  by (simp add: listed_def riga_old_def ci_equal_def string_eval)

lemma listed_jelgava: "listed jelgava_res"
  by (simp add: listed_def jelgava_res_def ci_equal_def string_eval)

theorem catalog_mapping_last_listed_witness:
  "fst (get_territory_list (Json \<lparr>success = True,
       result_resources = Some [riga_old, readme_res, jelgava_res, riga_new]\<rparr>)) = None \<and>
   snd (get_territory_list (Json \<lparr>success = True,
       result_resources = Some [riga_old, readme_res, jelgava_res, riga_new]\<rparr>))
     ''10. Jelgava'' = Some ''https://x/jelgava.ZIP'' \<and>
   (\<exists>pre e post. [riga_old, readme_res, jelgava_res, riga_new] = pre @ e # post \<and>
      listed e \<and> res_name e = Some (JStr ''10. Jelgava'') \<and>
      res_url e = Some (JStr ''https://x/jelgava.ZIP''))"
proof -
  let ?rs = "[riga_old, readme_res, jelgava_res, riga_new]"
  let ?m = "[''1. Riga'' \<mapsto> ''https://x/riga_old.zip'',
             ''10. Jelgava'' \<mapsto> ''https://x/jelgava.ZIP'',
             ''1. Riga'' \<mapsto> ''https://x/riga.zip'']"
  have g: "get_territory_list (Json \<lparr>success = True, result_resources = Some ?rs\<rparr>) =
             (None, ?m)"
    by (simp add: get_territory_list_def try_block_def add_riga_old add_riga_new add_jelgava
        add_readme)
  have l: "?m ''10. Jelgava'' = Some ''https://x/jelgava.ZIP''"
    by simp
  from catalog_mapping_last_listed [OF g, of "''10. Jelgava''" "''https://x/jelgava.ZIP''"] l
  have "\<exists>pre e post. ?rs = pre @ e # post \<and>
      listed e \<and> res_name e = Some (JStr ''10. Jelgava'') \<and>
      res_url e = Some (JStr ''https://x/jelgava.ZIP'')"
    by blast
  with g l show ?thesis by simp
qed

lemma add_riga_pdf: "add_resource riga_pdf m = Inr m"
  by (simp add: add_resource_def riga_pdf_def get_default_def val_upper_def val_lower_def
      val_truthy_def string_eval)

lemma not_listed_riga_pdf: "\<not> listed riga_pdf"
  by (simp add: listed_def riga_pdf_def ci_equal_def string_eval)

theorem catalog_duplicate_name_counterexample:
  "listed riga_old \<and>
   res_name riga_old = Some (JStr ''1. Riga'') \<and>
   res_url riga_old = Some (JStr ''https://x/riga_old.zip'') \<and>
   \<not> listed riga_pdf \<and>
   res_name riga_pdf = Some (JStr ''1. Riga'') \<and>
   fst (get_territory_list (Json \<lparr>success = True,
       result_resources = Some [riga_old, riga_pdf, riga_new]\<rparr>)) = None \<and>
   snd (get_territory_list (Json \<lparr>success = True,
       result_resources = Some [riga_old, riga_pdf, riga_new]\<rparr>)) ''1. Riga'' =
     Some ''https://x/riga.zip''"
  by (simp add: get_territory_list_def try_block_def add_riga_old add_riga_pdf add_riga_new
      listed_riga_old not_listed_riga_pdf)
     (simp add: riga_old_def riga_pdf_def)

text \<open>
  C9. When the request, the status check or the decoding of the body raises, and
  more generally when anything in the \<open>try\<close> block raises, \<open>get_territory_list\<close>
  reports the error and returns the empty mapping instead of raising; that is the
  mapping it returns for a catalog without resources.
\<close>

theorem catalog_fetch_fails_soft:
  "get_territory_list RequestFailed = (Some ConnectionError, Map.empty) \<and>
   get_territory_list BadStatus = (Some HTTPError, Map.empty) \<and>
   get_territory_list BadJson = (Some JSONDecodeError, Map.empty) \<and>
   (try_block r = Inl e \<longrightarrow> get_territory_list r = (Some e, Map.empty)) \<and>
   (fst (get_territory_list r) \<noteq> None \<longrightarrow>
      snd (get_territory_list r) =
      snd (get_territory_list (Json \<lparr>success = True, result_resources = Some []\<rparr>)))"
  by (auto simp: get_territory_list_def try_block_def split: sum.splits)

theorem catalog_fetch_fails_soft_witness:
  "try_block (Json \<lparr>success = True, result_resources = Some [riga_old, null_format_res]\<rparr>) =
     Inl AttributeError \<and>
   get_territory_list
     (Json \<lparr>success = True, result_resources = Some [riga_old, null_format_res]\<rparr>) =
     (Some AttributeError, Map.empty) \<and>
   snd (get_territory_list BadJson) =
   snd (get_territory_list (Json \<lparr>success = True, result_resources = Some []\<rparr>))"
proof -
  let ?r = "Json \<lparr>success = True, result_resources = Some [riga_old, null_format_res]\<rparr>"
  have t: "try_block ?r = Inl AttributeError"
    by (simp add: try_block_def add_riga_old add_null_format)
  have f: "fst (get_territory_list BadJson) \<noteq> None"
    by (simp add: get_territory_list_def try_block_def)
  from catalog_fetch_fails_soft [of ?r AttributeError] t
       catalog_fetch_fails_soft [of BadJson JSONDecodeError] f
  show ?thesis by blast
qed

section \<open>Properties of the extraction\<close>

lemma split_not_Nil: "split c s \<noteq> []"
  by (induction s) (auto split: list.splits)

lemma join_split: "join c (split c s) = s"
proof (induction s)
  case Nil
  show ?case by simp
next
  case (Cons x xs)
  obtain p ps where s: "split c xs = p # ps"
    using split_not_Nil [of c xs] by (cases "split c xs") auto
  show ?case
  proof (cases "x = c")
    case True
    with Cons s show ?thesis by simp
  next
    case False
    with Cons s show ?thesis by (cases ps) simp_all
  qed
qed

lemma plain_arcname: "plain m \<Longrightarrow> arcname m = m"
  by (simp add: plain_def arcname_def list_all_iff join_split del: set_simps)

lemma plain_not_Nil: "plain m \<Longrightarrow> m \<noteq> []"
  by (auto simp: plain_def)

lemma plain_target: "plain m \<Longrightarrow> extract_target t m = path_join t m"
  by (simp add: extract_target_def plain_arcname plain_not_Nil)

lemma extract_all_eq:
  "extract_all ok t g st =
     (st\<lparr>extracted := extracted st @ map (\<lambda>rf. (rf, extract_target t rf)) (takeWhile ok g)\<rparr>,
      \<not> list_all ok g)"
  by (induction g arbitrary: st) simp_all

lemma visit_name_snd:
  "snd (visit_name p b ok t names f st) \<longleftrightarrow>
     selected p b f \<and> \<not> list_all ok (group_of names f)"
  by (cases "list_all ok (group_of names f)")
    (auto simp: visit_name_def extract_all_eq selected_def)

lemma takeWhile_all: "list_all P xs \<Longrightarrow> takeWhile P xs = xs"
  by (induction xs) simp_all

lemma visit_name_ok:
  assumes "selected p b f \<longrightarrow> list_all ok (group_of names f)"
  shows "visit_name p b ok t names f st =
     (st\<lparr>extracted := extracted st @
          map (\<lambda>rf. (rf, extract_target t rf))
            ((if p \<and> is_parcel f then group_of names f else []) @
             (if b \<and> is_building f then group_of names f else [])),
        parcels_to_merge :=
          parcels_to_merge st @ (if p \<and> is_parcel f then [path_join t f] else []),
        buildings_to_merge :=
          buildings_to_merge st @ (if b \<and> is_building f then [path_join t f] else [])\<rparr>,
      False)"
  using assms by (auto simp: visit_name_def extract_all_eq selected_def takeWhile_all)

lemma visit_name_extracted:
  "\<not> snd (visit_name p b ok t names f st) \<Longrightarrow>
   extracted (fst (visit_name p b ok t names f st)) =
     extracted st @
     map (\<lambda>rf. (rf, extract_target t rf))
       ((if p \<and> is_parcel f then group_of names f else []) @
        (if b \<and> is_building f then group_of names f else []))"
  unfolding visit_name_snd by (subst visit_name_ok) simp_all

lemma visit_name_parcels:
  "\<not> snd (visit_name p b ok t names f st) \<Longrightarrow>
   parcels_to_merge (fst (visit_name p b ok t names f st)) =
     parcels_to_merge st @ (if p \<and> is_parcel f then [path_join t f] else [])"
  unfolding visit_name_snd by (subst visit_name_ok) simp_all

lemma visit_name_buildings:
  "\<not> snd (visit_name p b ok t names f st) \<Longrightarrow>
   buildings_to_merge (fst (visit_name p b ok t names f st)) =
     buildings_to_merge st @ (if b \<and> is_building f then [path_join t f] else [])"
  unfolding visit_name_snd by (subst visit_name_ok) simp_all

lemma visit_names_Cons:
  "visit_names p b ok t names (f # rest) st =
     (if snd (visit_name p b ok t names f st)
      then (fst (visit_name p b ok t names f st), True)
      else visit_names p b ok t names rest (fst (visit_name p b ok t names f st)))"
  by (simp split: prod.splits bool.splits)

lemma visit_names_snd:
  "snd (visit_names p b ok t names rem st) \<longleftrightarrow>
     (\<exists>f\<in>set rem. selected p b f \<and> \<not> list_all ok (group_of names f))"
proof (induction rem arbitrary: st)
  case Nil
  show ?case by simp
next
  case (Cons f rest)
  show ?case unfolding visit_names_Cons using Cons [of "fst (visit_name p b ok t names f st)"]
    by (auto simp: visit_name_snd)
qed

lemma visit_names_extracted:
  "\<not> snd (visit_names p b ok t names rem st) \<Longrightarrow>
   extracted (fst (visit_names p b ok t names rem st)) =
     extracted st @
     concat (map (\<lambda>f. map (\<lambda>rf. (rf, extract_target t rf))
                        ((if p \<and> is_parcel f then group_of names f else []) @
                         (if b \<and> is_building f then group_of names f else []))) rem)"
proof (induction rem arbitrary: st)
  case Nil
  show ?case by simp
next
  case (Cons f rest)
  from Cons.prems have n: "\<not> snd (visit_name p b ok t names f st)"
    and r: "\<not> snd (visit_names p b ok t names rest (fst (visit_name p b ok t names f st)))"
    unfolding visit_names_Cons by (auto split: if_splits)
  have "extracted (fst (visit_names p b ok t names (f # rest) st)) =
        extracted (fst (visit_names p b ok t names rest (fst (visit_name p b ok t names f st))))"
    unfolding visit_names_Cons using n by simp
  then show ?case
    unfolding Cons.IH [OF r] visit_name_extracted [OF n] by simp
qed

lemma visit_names_parcels:
  "\<not> snd (visit_names p b ok t names rem st) \<Longrightarrow>
   parcels_to_merge (fst (visit_names p b ok t names rem st)) =
     parcels_to_merge st @ (if p then map (path_join t) (filter is_parcel rem) else [])"
proof (induction rem arbitrary: st)
  case Nil
  show ?case by simp
next
  case (Cons f rest)
  from Cons.prems have n: "\<not> snd (visit_name p b ok t names f st)"
    and r: "\<not> snd (visit_names p b ok t names rest (fst (visit_name p b ok t names f st)))"
    unfolding visit_names_Cons by (auto split: if_splits)
  have "parcels_to_merge (fst (visit_names p b ok t names (f # rest) st)) =
        parcels_to_merge
          (fst (visit_names p b ok t names rest (fst (visit_name p b ok t names f st))))"
    unfolding visit_names_Cons using n by simp
  then show ?case
    unfolding Cons.IH [OF r] visit_name_parcels [OF n] by simp
qed

lemma visit_names_buildings:
  "\<not> snd (visit_names p b ok t names rem st) \<Longrightarrow>
   buildings_to_merge (fst (visit_names p b ok t names rem st)) =
     buildings_to_merge st @ (if b then map (path_join t) (filter is_building rem) else [])"
proof (induction rem arbitrary: st)
  case Nil
  show ?case by simp
next
  case (Cons f rest)
  from Cons.prems have n: "\<not> snd (visit_name p b ok t names f st)"
    and r: "\<not> snd (visit_names p b ok t names rest (fst (visit_name p b ok t names f st)))"
    unfolding visit_names_Cons by (auto split: if_splits)
  have "buildings_to_merge (fst (visit_names p b ok t names (f # rest) st)) =
        buildings_to_merge
          (fst (visit_names p b ok t names rest (fst (visit_name p b ok t names f st))))"
    unfolding visit_names_Cons using n by simp
  then show ?case
    unfolding Cons.IH [OF r] visit_name_buildings [OF n] by simp
qed

lemma visit_names_readable:
  "list_all ok names \<Longrightarrow> \<not> snd (visit_names p b ok t names rem st)"
  by (auto simp: visit_names_snd group_of_def list_all_iff)

lemma rsplit1_head_split:
  assumes "c \<in> set s"
  shows "s = rsplit1_head c s @ c # rev (takeWhile (\<lambda>x. x \<noteq> c) (rev s))"
proof -
  let ?t = "takeWhile (\<lambda>x. x \<noteq> c) (rev s)"
  let ?d = "dropWhile (\<lambda>x. x \<noteq> c) (rev s)"
  from assms have "?d \<noteq> []" by simp
  then obtain x xs where d: "?d = x # xs" by (cases ?d) auto
  then have "x = c" using hd_dropWhile[of "\<lambda>x. x \<noteq> c" "rev s"] by auto
  have "rev s = ?t @ ?d" by simp
  then have "s = rev ?d @ rev ?t" by (metis rev_append rev_rev_ident)
  with d \<open>x = c\<close> assms show ?thesis by (simp add: rsplit1_head_def)
qed

lemma startswith_append: "startswith (a @ b) a"
  by (simp add: startswith_def)

lemma startswith_base: "startswith g (rsplit1_head c g)"
proof (cases "c \<in> set g")
  case True
  from rsplit1_head_split[OF this] show ?thesis by (metis startswith_append)
next
  case False
  then show ?thesis by (simp add: rsplit1_head_def startswith_def)
qed

lemma extracted_iff:
  assumes "\<not> snd (visit_names p b ok t names names no_extraction)"
  shows "(g, tgt) \<in> set (extracted (fst (visit_names p b ok t names names no_extraction))) \<longleftrightarrow>
     g \<in> set names \<and> tgt = extract_target t g \<and>
     (\<exists>f\<in>set names. selected p b f \<and> startswith g (rsplit1_head (CHR ''.'') f))"
  unfolding visit_names_extracted [OF assms]
  by (auto simp: no_extraction_def group_of_def selected_def split: if_splits)

lemma recorded_parcels:
  assumes "\<not> snd (visit_names p b ok t names names no_extraction)"
    and "list_all plain (filter (selected p b) names)"
  shows "parcels_to_merge (fst (visit_names p b ok t names names no_extraction)) =
     (if p then map (extract_target t) (filter is_parcel names) else [])"
proof -
  have "map (path_join t) (filter is_parcel names) =
        map (extract_target t) (filter is_parcel names)" if p
    using assms(2) that by (auto simp: list_all_iff selected_def plain_target)
  then show ?thesis
    unfolding visit_names_parcels [OF assms(1)] by (simp add: no_extraction_def)
qed

lemma recorded_buildings:
  assumes "\<not> snd (visit_names p b ok t names names no_extraction)"
    and "list_all plain (filter (selected p b) names)"
  shows "buildings_to_merge (fst (visit_names p b ok t names names no_extraction)) =
     (if b then map (extract_target t) (filter is_building names) else [])"
proof -
  have "map (path_join t) (filter is_building names) =
        map (extract_target t) (filter is_building names)" if b
    using assms(2) that by (auto simp: list_all_iff selected_def plain_target)
  then show ?thesis
    unfolding visit_names_buildings [OF assms(1)] by (simp add: no_extraction_def)
qed

text \<open>
  C3, as amended. Provided no extraction from the archive of a territory raises: an
  entry is extracted, to its place under the working directory, if and only if its name
  starts with the base name (the name up to its last period) of an entry that a
  requested category selects, that is, one whose name contains the include-substring,
  does not contain the exclude-substring and ends in \<open>.shp\<close> in any case. So every
  selected entry is extracted, and with it every entry of the same base name. When the
  names of the selected entries are relative paths without empty, \<open>.\<close> or \<open>..\<close>
  components, the paths recorded for a category are the extracted paths of the entries
  the category selects, in the order of the archive.
\<close>

theorem extractor_takes_prefix_groups:
  assumes "\<not> snd (visit_names p b ok t names names no_extraction)"
  shows
  "((g, tgt) \<in> set (extracted (fst (visit_names p b ok t names names no_extraction))) \<longleftrightarrow>
      g \<in> set names \<and> tgt = extract_target t g \<and>
      (\<exists>f\<in>set names. selected p b f \<and> startswith g (rsplit1_head (CHR ''.'') f))) \<and>
   (f \<in> set names \<and> selected p b f \<and> g \<in> set names \<and>
    rsplit1_head (CHR ''.'') g = rsplit1_head (CHR ''.'') f \<longrightarrow>
      (f, extract_target t f) \<in>
        set (extracted (fst (visit_names p b ok t names names no_extraction))) \<and>
      (g, extract_target t g) \<in>
        set (extracted (fst (visit_names p b ok t names names no_extraction)))) \<and>
   (list_all plain (filter (selected p b) names) \<longrightarrow>
      parcels_to_merge (fst (visit_names p b ok t names names no_extraction)) =
        (if p then map (extract_target t) (filter is_parcel names) else []) \<and>
      buildings_to_merge (fst (visit_names p b ok t names names no_extraction)) =
        (if b then map (extract_target t) (filter is_building names) else []))"
proof (intro conjI impI)
  show "(g, tgt) \<in> set (extracted (fst (visit_names p b ok t names names no_extraction))) \<longleftrightarrow>
      g \<in> set names \<and> tgt = extract_target t g \<and>
      (\<exists>f\<in>set names. selected p b f \<and> startswith g (rsplit1_head (CHR ''.'') f))"
    by (rule extracted_iff [OF assms])
next
  assume h: "f \<in> set names \<and> selected p b f \<and> g \<in> set names \<and>
    rsplit1_head (CHR ''.'') g = rsplit1_head (CHR ''.'') f"
  then have "startswith f (rsplit1_head (CHR ''.'') f)"
    and "startswith g (rsplit1_head (CHR ''.'') f)"
    using startswith_base[of f "CHR ''.''"] startswith_base[of g "CHR ''.''"] by simp_all
  with h show "(f, extract_target t f) \<in>
        set (extracted (fst (visit_names p b ok t names names no_extraction)))"
    and "(g, extract_target t g) \<in>
        set (extracted (fst (visit_names p b ok t names names no_extraction)))"
    unfolding extracted_iff [OF assms] by blast+
next
  assume "list_all plain (filter (selected p b) names)"
  then show "parcels_to_merge (fst (visit_names p b ok t names names no_extraction)) =
        (if p then map (extract_target t) (filter is_parcel names) else [])"
    by (rule recorded_parcels [OF assms])
next
  assume "list_all plain (filter (selected p b) names)"
  then show "buildings_to_merge (fst (visit_names p b ok t names names no_extraction)) =
        (if b then map (extract_target t) (filter is_building names) else [])"
    by (rule recorded_buildings [OF assms])
qed

lemma example_parcels: "filter is_parcel example_archive = [''KKParcel.shp'']"
  by (simp add: example_archive_def is_parcel_def string_eval)

lemma example_buildings: "filter is_building example_archive = [''KKBuilding.shp'']"
  by (simp add: example_archive_def is_building_def string_eval)

lemma example_plain: "list_all plain example_archive"
  by (simp add: example_archive_def plain_def)

lemma example_targets:
  "extract_target ''/tmp/w'' ''KKParcel.shp'' = ''/tmp/w/KKParcel.shp''"
  "extract_target ''/tmp/w'' ''KKParcel.dbf'' = ''/tmp/w/KKParcel.dbf''"
  "extract_target ''/tmp/w'' ''KKBuilding.shp'' = ''/tmp/w/KKBuilding.shp''"
  by (simp_all add: extract_target_def arcname_def path_join_def startswith_def endswith_def)

theorem extractor_takes_prefix_groups_witness:
  "\<not> snd (visit_names True True all_readable ''/tmp/w'' example_archive example_archive
            no_extraction) \<and>
   (''KKParcel.shp'', ''/tmp/w/KKParcel.shp'') \<in> set (extracted (fst
      (visit_names True True all_readable ''/tmp/w'' example_archive example_archive
         no_extraction))) \<and>
   (''KKParcel.dbf'', ''/tmp/w/KKParcel.dbf'') \<in> set (extracted (fst
      (visit_names True True all_readable ''/tmp/w'' example_archive example_archive
         no_extraction))) \<and>
   list_all plain (filter (selected True True) example_archive) \<and>
   parcels_to_merge (fst
      (visit_names True True all_readable ''/tmp/w'' example_archive example_archive
         no_extraction)) = [''/tmp/w/KKParcel.shp''] \<and>
   buildings_to_merge (fst
      (visit_names True True all_readable ''/tmp/w'' example_archive example_archive
         no_extraction)) = [''/tmp/w/KKBuilding.shp'']"
proof -
  let ?st = "fst (visit_names True True all_readable ''/tmp/w'' example_archive
                    example_archive no_extraction)"
  have n: "\<not> snd (visit_names True True all_readable ''/tmp/w'' example_archive
                    example_archive no_extraction)"
    by (rule visit_names_readable) (simp add: list_all_iff all_readable_def)
  have a: "''KKParcel.shp'' \<in> set example_archive" "''KKParcel.dbf'' \<in> set example_archive"
    by (simp_all add: example_archive_def)
  have s: "selected True True ''KKParcel.shp''"
    by (simp add: selected_def is_parcel_def string_eval)
  have r: "rsplit1_head (CHR ''.'') ''KKParcel.dbf'' = rsplit1_head (CHR ''.'') ''KKParcel.shp''"
    by (simp add: rsplit1_head_def)
  have pl: "list_all plain (filter (selected True True) example_archive)"
    using example_plain by (simp add: list_all_iff)
  note t = extractor_takes_prefix_groups [OF n, where g = "''KKParcel.dbf''"
      and f = "''KKParcel.shp''"]
  from t a s r
  have "(''KKParcel.shp'', extract_target ''/tmp/w'' ''KKParcel.shp'') \<in> set (extracted ?st)"
    and "(''KKParcel.dbf'', extract_target ''/tmp/w'' ''KKParcel.dbf'') \<in> set (extracted ?st)"
    by blast+
  then have "(''KKParcel.shp'', ''/tmp/w/KKParcel.shp'') \<in> set (extracted ?st)"
    and "(''KKParcel.dbf'', ''/tmp/w/KKParcel.dbf'') \<in> set (extracted ?st)"
    by (simp_all add: example_targets)
  moreover from t pl
  have "parcels_to_merge ?st = map (extract_target ''/tmp/w'') (filter is_parcel example_archive)"
    and "buildings_to_merge ?st =
           map (extract_target ''/tmp/w'') (filter is_building example_archive)"
    by simp_all
  then have "parcels_to_merge ?st = [''/tmp/w/KKParcel.shp'']"
    and "buildings_to_merge ?st = [''/tmp/w/KKBuilding.shp'']"
    unfolding example_parcels example_buildings by (simp_all add: example_targets)
  ultimately show ?thesis using n pl by blast
qed

lemmas extract_eval =
  visit_name_def is_parcel_def is_building_def group_of_def rsplit1_head_def startswith_def
  endswith_def extract_target_def arcname_def path_join_def no_extraction_def string_eval

lemma eval_example_archive:
  "visit_names True False all_readable ''/tmp/w'' example_archive example_archive
     no_extraction =
   (\<lparr>extracted =
       [(''KKParcel.shp'', ''/tmp/w/KKParcel.shp''),
        (''KKParcel.shx'', ''/tmp/w/KKParcel.shx''),
        (''KKParcel.dbf'', ''/tmp/w/KKParcel.dbf''),
        (''KKParcel.prj'', ''/tmp/w/KKParcel.prj''),
        (''KKParcelPart.shp'', ''/tmp/w/KKParcelPart.shp''),
        (''KKParcelPart.shx'', ''/tmp/w/KKParcelPart.shx''),
        (''KKParcelPart.dbf'', ''/tmp/w/KKParcelPart.dbf'')],
      parcels_to_merge = [''/tmp/w/KKParcel.shp''], buildings_to_merge = []\<rparr>, False)"
  by (simp add: example_archive_def all_readable_def extract_eval)

lemma eval_shx_unreadable:
  "visit_names True False shx_unreadable ''/tmp/w'' example_archive example_archive
     no_extraction =
   (\<lparr>extracted = [(''KKParcel.shp'', ''/tmp/w/KKParcel.shp'')],
      parcels_to_merge = [], buildings_to_merge = []\<rparr>, True)"
  by (simp add: example_archive_def shx_unreadable_def extract_eval)

lemma eval_absolute_name:
  "visit_names True False all_readable ''/tmp/w''
     [''/data/KKParcel.shp''] [''/data/KKParcel.shp''] no_extraction =
   (\<lparr>extracted = [(''/data/KKParcel.shp'', ''/tmp/w/data/KKParcel.shp'')],
      parcels_to_merge = [''/data/KKParcel.shp''], buildings_to_merge = []\<rparr>, False)"
  by (simp add: all_readable_def extract_eval)

theorem extractor_exact_group_counterexample:
  "filter (selected True False) example_archive = [''KKParcel.shp''] \<and>
   rsplit1_head (CHR ''.'') ''KKParcel.shp'' = ''KKParcel'' \<and>
   rsplit1_head (CHR ''.'') ''KKParcelPart.dbf'' = ''KKParcelPart'' \<and>
   (''KKParcelPart.dbf'', ''/tmp/w/KKParcelPart.dbf'') \<in> set (extracted (fst
      (visit_names True False all_readable ''/tmp/w'' example_archive example_archive
         no_extraction))) \<and>
   visit_names True False shx_unreadable ''/tmp/w'' example_archive example_archive
     no_extraction =
     (\<lparr>extracted = [(''KKParcel.shp'', ''/tmp/w/KKParcel.shp'')],
        parcels_to_merge = [], buildings_to_merge = []\<rparr>, True) \<and>
   visit_names True False all_readable ''/tmp/w''
     [''/data/KKParcel.shp''] [''/data/KKParcel.shp''] no_extraction =
     (\<lparr>extracted = [(''/data/KKParcel.shp'', ''/tmp/w/data/KKParcel.shp'')],
        parcels_to_merge = [''/data/KKParcel.shp''], buildings_to_merge = []\<rparr>, False)"
proof -
  have "selected True False = is_parcel" by (rule ext) (simp add: selected_def)
  then have "filter (selected True False) example_archive = [''KKParcel.shp'']"
    by (simp add: example_parcels)
  moreover have "rsplit1_head (CHR ''.'') ''KKParcel.shp'' = ''KKParcel''"
    and "rsplit1_head (CHR ''.'') ''KKParcelPart.dbf'' = ''KKParcelPart''"
    by (simp_all add: rsplit1_head_def)
  moreover have "(''KKParcelPart.dbf'', ''/tmp/w/KKParcelPart.dbf'') \<in> set (extracted (fst
      (visit_names True False all_readable ''/tmp/w'' example_archive example_archive
         no_extraction)))"
    unfolding eval_example_archive by simp
  ultimately show ?thesis
    using eval_shx_unreadable eval_absolute_name by blast
qed

lemma download_loop_failed:
  "download_loop p b ok t (None # rest) st = download_loop p b ok t rest st"
  by simp

lemma download_loop_parcels:
  assumes "\<forall>a\<in>set archives. case a of None \<Rightarrow> True | Some names \<Rightarrow> list_all ok names"
  shows "parcels_to_merge (download_loop p b ok t archives st) =
     parcels_to_merge st @
     (if p then concat (map (\<lambda>a. case a of None \<Rightarrow> []
                                | Some names \<Rightarrow> map (path_join t) (filter is_parcel names))
                         archives)
      else [])"
  using assms
proof (induction archives arbitrary: st)
  case Nil
  show ?case by simp
next
  case (Cons a rest)
  show ?case
  proof (cases a)
    case None
    with Cons show ?thesis by simp
  next
    case (Some names)
    with Cons.prems have "list_all ok names" by simp
    then have n: "\<not> snd (visit_names p b ok t names names st)"
      by (rule visit_names_readable)
    from Cons.prems have "\<forall>a\<in>set rest. case a of None \<Rightarrow> True | Some names \<Rightarrow> list_all ok names"
      by simp
    from Cons.IH [OF this] Some show ?thesis
      by (simp add: visit_names_parcels [OF n])
  qed
qed

lemma download_loop_buildings:
  assumes "\<forall>a\<in>set archives. case a of None \<Rightarrow> True | Some names \<Rightarrow> list_all ok names"
  shows "buildings_to_merge (download_loop p b ok t archives st) =
     buildings_to_merge st @
     (if b then concat (map (\<lambda>a. case a of None \<Rightarrow> []
                                | Some names \<Rightarrow> map (path_join t) (filter is_building names))
                         archives)
      else [])"
  using assms
proof (induction archives arbitrary: st)
  case Nil
  show ?case by simp
next
  case (Cons a rest)
  show ?case
  proof (cases a)
    case None
    with Cons show ?thesis by simp
  next
    case (Some names)
    with Cons.prems have "list_all ok names" by simp
    then have n: "\<not> snd (visit_names p b ok t names names st)"
      by (rule visit_names_readable)
    from Cons.prems have "\<forall>a\<in>set rest. case a of None \<Rightarrow> True | Some names \<Rightarrow> list_all ok names"
      by simp
    from Cons.IH [OF this] Some show ?thesis
      by (simp add: visit_names_buildings [OF n])
  qed
qed

section \<open>Properties of the packing\<close>

lemma write_exts_eq:
  "write_exts ex bp bn exts z =
     z @ map (\<lambda>e. (bp @ e, bn @ e)) (filter (\<lambda>e. ex (bp @ e)) exts)"
  by (induction exts arbitrary: z) simp_all

lemma write_bases_eq:
  "write_bases ex t bs z =
     z @ concat (map (\<lambda>b. map (\<lambda>e. (path_join t b @ e, b @ e))
                          (filter (\<lambda>e. ex (path_join t b @ e)) package_exts)) bs)"
  by (induction bs arbitrary: z) (simp_all add: write_exts_eq)

lemma write_bases_member:
  "(src, arc) \<in> set (write_bases ex t bs []) \<longleftrightarrow>
     (\<exists>b\<in>set bs. \<exists>e\<in>set package_exts. src = path_join t b @ e \<and> arc = b @ e \<and> ex src)"
  by (auto simp: write_bases_eq)

text \<open>
  C8. Without a base name the packager returns nothing. Otherwise it returns an
  archive whose members are exactly the files \<open>workDir/baseName.ext\<close> that exist, for
  the base names given and the five extensions, each stored under the flat name
  \<open>baseName.ext\<close>.
\<close>

theorem packager_members:
  "zip_result ex t [] = None \<and>
   (bs \<noteq> [] \<longrightarrow>
      (\<exists>z. zip_result ex t bs = Some z \<and>
         (\<forall>src arc. (src, arc) \<in> set z \<longleftrightarrow>
            (\<exists>b\<in>set bs. \<exists>e\<in>set package_exts.
               src = path_join t b @ e \<and> arc = b @ e \<and> ex src)))) \<and>
   set package_exts = {''.shp'', ''.shx'', ''.dbf'', ''.prj'', ''.cpg''}"
proof (intro conjI impI)
  show "zip_result ex t [] = None" by (simp add: zip_result_def)
next
  assume "bs \<noteq> []"
  then have "zip_result ex t bs = Some (write_bases ex t bs [])"
    by (simp add: zip_result_def)
  then show "\<exists>z. zip_result ex t bs = Some z \<and>
         (\<forall>src arc. (src, arc) \<in> set z \<longleftrightarrow>
            (\<exists>b\<in>set bs. \<exists>e\<in>set package_exts.
               src = path_join t b @ e \<and> arc = b @ e \<and> ex src))"
    using write_bases_member by blast
next
  show "set package_exts = {''.shp'', ''.shx'', ''.dbf'', ''.prj'', ''.cpg''}"
    by (simp add: package_exts_def)
qed

theorem packager_members_witness:
  "\<exists>z. zip_result merged_exists ''/tmp/w'' [''Parcels_merged''] = Some z \<and>
       (''/tmp/w/Parcels_merged.dbf'', ''Parcels_merged.dbf'') \<in> set z \<and>
       (''/tmp/w/Parcels_merged.prj'', ''Parcels_merged.prj'') \<notin> set z"
proof -
  have j: "path_join ''/tmp/w'' ''Parcels_merged'' = ''/tmp/w/Parcels_merged''"
    by (simp add: path_join_def startswith_def endswith_def)
  have n: "[''Parcels_merged''] \<noteq> []" by simp
  from packager_members [of merged_exists "''/tmp/w''" "[''Parcels_merged'']"] n
  obtain z where z: "zip_result merged_exists ''/tmp/w'' [''Parcels_merged''] = Some z"
    "\<forall>src arc. (src, arc) \<in> set z \<longleftrightarrow>
       (\<exists>b\<in>set [''Parcels_merged'']. \<exists>e\<in>set package_exts.
          src = path_join ''/tmp/w'' b @ e \<and> arc = b @ e \<and> merged_exists src)"
    by blast
  have "(''/tmp/w/Parcels_merged.dbf'', ''Parcels_merged.dbf'') \<in> set z"
    by (simp add: z(2) j package_exts_def merged_exists_def)
  moreover have "(''/tmp/w/Parcels_merged.prj'', ''Parcels_merged.prj'') \<notin> set z"
    by (simp add: z(2) j package_exts_def merged_exists_def)
  ultimately show ?thesis using z(1) by blast
qed

lemma files_created_names:
  "set (files_created ex lib d t parcels buildings) \<subseteq> {''Parcels_merged'', ''Buildings_merged''}"
  by (auto simp: files_created_def)

lemma files_created_empty:
  "files_created ex lib d t [] [] = []"
  by (simp add: files_created_def)

end
